theory Spec2Isabelle
  imports Main "HOL-Library.Word"
begin

section \<open>The C library as the program sees it\<close>

text \<open>
  \<^verbatim>\<open>main.c\<close> is an argument parser followed by a line-buffered copy loop. Everything
  it does goes through libc: \<^verbatim>\<open>getopt\<close>, \<^verbatim>\<open>fopen\<close>, \<^verbatim>\<open>fclose\<close>, \<^verbatim>\<open>fgets\<close>,
  \<^verbatim>\<open>fputs\<close>, \<^verbatim>\<open>printf\<close>, \<^verbatim>\<open>perror\<close>, \<^verbatim>\<open>strtoul\<close> and \<^verbatim>\<open>basename\<close>. The
  library calls are modelled after ISO C and POSIX; the two functions of \<^verbatim>\<open>main.c\<close>
  are translated statement by statement on top of them.

  Bytes are \<^typ>\<open>char\<close>, C strings are \<^typ>\<open>string\<close> without their terminating NUL,
  \<^verbatim>\<open>int\<close> is a 32-bit word and \<^verbatim>\<open>unsigned long\<close> a 64-bit word (LP64).
\<close>

type_synonym c_int = "32 word"
type_synonym c_ulong = "64 word"

definition NUL :: char where
  "NUL = CHR 0x00"

definition NL :: char where
  "NL = CHR 0x0A"

subsection \<open>Printing decimal numerals\<close>

fun show_nat :: "nat \<Rightarrow> string" where
  "show_nat n =
     (if n < 10 then [''0123456789'' ! n]
      else show_nat (n div 10) @ [''0123456789'' ! (n mod 10)])"

declare show_nat.simps [simp del]

definition show_int :: "int \<Rightarrow> string" where
  "show_int i = (if i < 0 then CHR ''-'' # show_nat (nat (- i)) else show_nat (nat i))"

subsection \<open>errno and its messages\<close>

text \<open>
  \<^verbatim>\<open>errno\<close> is a number. The numbers and the messages of \<^verbatim>\<open>strerror\<close> are those of
  Linux with the GNU C library; a number without a message of its own gives
  \<^verbatim>\<open>Unknown error\<close> and the number. 0 is no error.
\<close>

type_synonym errno = nat

definition ENONE :: errno where
  "ENONE = 0"

definition EPERM :: errno where
  "EPERM = 1"

definition ENOENT :: errno where
  "ENOENT = 2"

definition EINTR :: errno where
  "EINTR = 4"

definition EIO :: errno where
  "EIO = 5"

definition ENXIO :: errno where
  "ENXIO = 6"

definition ENOMEM :: errno where
  "ENOMEM = 12"

definition EACCES :: errno where
  "EACCES = 13"

definition ENOTDIR :: errno where
  "ENOTDIR = 20"

definition EISDIR :: errno where
  "EISDIR = 21"

definition EINVAL :: errno where
  "EINVAL = 22"

definition ENFILE :: errno where
  "ENFILE = 23"

definition EMFILE :: errno where
  "EMFILE = 24"

definition ENAMETOOLONG :: errno where
  "ENAMETOOLONG = 36"

definition ELOOP :: errno where
  "ELOOP = 40"

definition EOVERFLOW :: errno where
  "EOVERFLOW = 75"

definition messages :: "(errno \<times> string) list" where
  "messages =
     [(0, ''Success''), (1, ''Operation not permitted''),
      (2, ''No such file or directory''), (3, ''No such process''),
      (4, ''Interrupted system call''), (5, ''Input/output error''),
      (6, ''No such device or address''), (7, ''Argument list too long''),
      (8, ''Exec format error''), (9, ''Bad file descriptor''),
      (10, ''No child processes''), (11, ''Resource temporarily unavailable''),
      (12, ''Cannot allocate memory''), (13, ''Permission denied''),
      (14, ''Bad address''), (15, ''Block device required''),
      (16, ''Device or resource busy''), (17, ''File exists''),
      (18, ''Invalid cross-device link''), (19, ''No such device''),
      (20, ''Not a directory''), (21, ''Is a directory''),
      (22, ''Invalid argument''), (23, ''Too many open files in system''),
      (24, ''Too many open files''), (25, ''Inappropriate ioctl for device''),
      (26, ''Text file busy''), (27, ''File too large''),
      (28, ''No space left on device''), (29, ''Illegal seek''),
      (30, ''Read-only file system''), (31, ''Too many links''),
      (32, ''Broken pipe''), (33, ''Numerical argument out of domain''),
      (34, ''Numerical result out of range''), (35, ''Resource deadlock avoided''),
      (36, ''File name too long''), (37, ''No locks available''),
      (38, ''Function not implemented''), (39, ''Directory not empty''),
      (40, ''Too many levels of symbolic links''), (42, ''No message of desired type''),
      (43, ''Identifier removed''), (44, ''Channel number out of range''),
      (45, ''Level 2 not synchronized''), (46, ''Level 3 halted''),
      (47, ''Level 3 reset''), (48, ''Link number out of range''),
      (49, ''Protocol driver not attached''), (50, ''No CSI structure available''),
      (51, ''Level 2 halted''), (52, ''Invalid exchange''),
      (53, ''Invalid request descriptor''), (54, ''Exchange full''),
      (55, ''No anode''), (56, ''Invalid request code''),
      (57, ''Invalid slot''), (59, ''Bad font file format''),
      (60, ''Device not a stream''), (61, ''No data available''),
      (62, ''Timer expired''), (63, ''Out of streams resources''),
      (64, ''Machine is not on the network''), (65, ''Package not installed''),
      (66, ''Object is remote''), (67, ''Link has been severed''),
      (68, ''Advertise error''), (69, ''Srmount error''),
      (70, ''Communication error on send''), (71, ''Protocol error''),
      (72, ''Multihop attempted''), (73, ''RFS specific error''),
      (74, ''Bad message''), (75, ''Value too large for defined data type''),
      (76, ''Name not unique on network''), (77, ''File descriptor in bad state''),
      (78, ''Remote address changed''), (79, ''Can not access a needed shared library''),
      (80, ''Accessing a corrupted shared library''), (81, ''.lib section in a.out corrupted''),
      (82, ''Attempting to link in too many shared libraries''), (83, ''Cannot exec a shared library directly''),
      (84, ''Invalid or incomplete multibyte or wide character''), (85, ''Interrupted system call should be restarted''),
      (86, ''Streams pipe error''), (87, ''Too many users''),
      (88, ''Socket operation on non-socket''), (89, ''Destination address required''),
      (90, ''Message too long''), (91, ''Protocol wrong type for socket''),
      (92, ''Protocol not available''), (93, ''Protocol not supported''),
      (94, ''Socket type not supported''), (95, ''Operation not supported''),
      (96, ''Protocol family not supported''), (97, ''Address family not supported by protocol''),
      (98, ''Address already in use''), (99, ''Cannot assign requested address''),
      (100, ''Network is down''), (101, ''Network is unreachable''),
      (102, ''Network dropped connection on reset''), (103, ''Software caused connection abort''),
      (104, ''Connection reset by peer''), (105, ''No buffer space available''),
      (106, ''Transport endpoint is already connected''), (107, ''Transport endpoint is not connected''),
      (108, ''Cannot send after transport endpoint shutdown''), (109, ''Too many references: cannot splice''),
      (110, ''Connection timed out''), (111, ''Connection refused''),
      (112, ''Host is down''), (113, ''No route to host''),
      (114, ''Operation already in progress''), (115, ''Operation now in progress''),
      (116, ''Stale file handle''), (117, ''Structure needs cleaning''),
      (118, ''Not a XENIX named type file''), (119, ''No XENIX semaphores available''),
      (120, ''Is a named type file''), (121, ''Remote I/O error''),
      (122, ''Disk quota exceeded''), (123, ''No medium found''),
      (124, ''Wrong medium type''), (125, ''Operation canceled''),
      (126, ''Required key not available''), (127, ''Key has expired''),
      (128, ''Key has been revoked''), (129, ''Key was rejected by service''),
      (130, ''Owner died''), (131, ''State not recoverable''),
      (132, ''Operation not possible due to RF-kill''), (133, ''Memory page has hardware error'')]"

definition strerror :: "errno \<Rightarrow> string" where
  "strerror e =
     (case map_of messages e of
        Some s \<Rightarrow> s
      | None \<Rightarrow> ''Unknown error '' @ show_nat e)"

lemma strerror_names [simp]:
  "strerror ENONE = ''Success''"
  "strerror ENOENT = ''No such file or directory''"
  "strerror EIO = ''Input/output error''"
  "strerror EACCES = ''Permission denied''"
  "strerror ENOTDIR = ''Not a directory''"
  "strerror EINVAL = ''Invalid argument''"
  "strerror EMFILE = ''Too many open files''"
  by (simp_all add: strerror_def messages_def ENONE_def ENOENT_def EIO_def EACCES_def
      ENOTDIR_def EINVAL_def EMFILE_def)

subsection \<open>Files, streams and the observable trace\<close>

text \<open>
  A file of the file system is a finite sequence of bytes; \<open>broken\<close> says that the
  device reports a read error once these bytes have been delivered (instead of
  end-of-file). A path either names such a file or fails to open with an errno.
\<close>

record disk_file =
  bytes :: string
  broken :: bool

record env =
  fs :: "string \<Rightarrow> errno + disk_file"
  permute :: bool

text \<open>
  \<open>permute\<close> selects the flavour of \<^verbatim>\<open>getopt\<close>: \<open>False\<close> is POSIX (scanning stops at
  the first operand), \<open>True\<close> is the GNU default (operands are skipped and moved
  behind the options).
\<close>

record FILE =
  name :: string
  pending :: string
  rerr :: bool

text \<open>
  What the process does to the outside is a chronological list of events. \<open>Stdout s\<close>
  records the bytes that standard output accepted from one library call.
\<close>

datatype event = Fopen string | Fclose string | Stdout string | Stderr string

record world =
  events :: "event list"
  room :: "nat option"
  errno :: errno

text \<open>
  \<open>room\<close> is the number of bytes standard output still accepts (\<open>None\<close>: no limit, the
  normal case). The error stream accepts every write.
\<close>

text \<open>The two output streams the program writes to.\<close>

datatype ostream = stdout | stderr

definition emit :: "event \<Rightarrow> world \<Rightarrow> world" where
  "emit e w = w\<lparr>events := events w @ [e]\<rparr>"

fun stdout_of :: "event list \<Rightarrow> string" where
  "stdout_of [] = []"
| "stdout_of (Stdout s # es) = s @ stdout_of es"
| "stdout_of (_ # es) = stdout_of es"

fun stderr_of :: "event list \<Rightarrow> string" where
  "stderr_of [] = []"
| "stderr_of (Stderr s # es) = s @ stderr_of es"
| "stderr_of (_ # es) = stderr_of es"

fun open_count :: "event list \<Rightarrow> int" where
  "open_count [] = 0"
| "open_count (Fopen _ # es) = 1 + open_count es"
| "open_count (Fclose _ # es) = open_count es - 1"
| "open_count (_ # es) = open_count es"

subsection \<open>stdio\<close>

definition fopen :: "env \<Rightarrow> string \<Rightarrow> world \<Rightarrow> FILE option \<times> world" where
  "fopen E path w =
     (case fs E path of
        Inl e \<Rightarrow> (None, w\<lparr>errno := e\<rparr>)
      | Inr f \<Rightarrow> (Some \<lparr>name = path, pending = bytes f, rerr = broken f\<rparr>,
                 emit (Fopen path) w))"

definition fclose :: "FILE \<Rightarrow> world \<Rightarrow> world" where
  "fclose f w = emit (Fclose (name f)) w"

text \<open>
  \<open>read_line k s\<close>: the bytes \<^verbatim>\<open>fgets\<close> stores when it may store \<open>k\<close> of them: up to
  and including the first newline, at most \<open>k\<close>, at most what is there.
\<close>

fun read_line :: "nat \<Rightarrow> string \<Rightarrow> string \<times> string" where
  "read_line k [] = ([], [])"
| "read_line k (c # s) =
     (if k = 0 then ([], c # s)
      else if c = NL then ([c], s)
      else (case read_line (k - 1) s of (a, b) \<Rightarrow> (c # a, b)))"

text \<open>
  \<^verbatim>\<open>fgets(buf, n, fp)\<close> stores at most \<open>n - 1\<close> bytes and a terminating NUL. It
  returns NULL (\<open>None\<close>) at end-of-file when nothing was read, and on a read error.
\<close>

definition fgets :: "nat \<Rightarrow> FILE \<Rightarrow> (string \<times> FILE) option" where
  "fgets n f =
     (case read_line (n - 1) (pending f) of
        (buf, rest) \<Rightarrow>
          if n = 0 then None
          else if buf \<noteq> [] \<and> (last buf = NL \<or> length buf = n - 1)
            then Some (buf, f\<lparr>pending := rest\<rparr>)
          else if rerr f then None
          else if buf = [] then None
          else Some (buf, f\<lparr>pending := rest\<rparr>))"

text \<open>
  A write to standard output: the device takes what it has room for. The call
  returns a negative value (\<^verbatim>\<open>EOF\<close>) when it could not take everything.
\<close>

definition put :: "string \<Rightarrow> world \<Rightarrow> c_int \<times> world" where
  "put s w =
     (case room w of
        None \<Rightarrow> (0, emit (Stdout s) w)
      | Some k \<Rightarrow>
          if length s \<le> k then (0, (emit (Stdout s) w)\<lparr>room := Some (k - length s)\<rparr>)
          else (- 1, (emit (Stdout (take k s)) w)\<lparr>room := Some 0, errno := EIO\<rparr>))"

text \<open>\<^verbatim>\<open>fputs(buf, output)\<close> writes the C string in \<open>buf\<close>: the bytes before its first NUL.\<close>

definition fputs :: "string \<Rightarrow> ostream \<Rightarrow> world \<Rightarrow> c_int \<times> world" where
  "fputs buf out w =
     (case out of
        stdout \<Rightarrow> put (takeWhile (\<lambda>c. c \<noteq> NUL) buf) w
      | stderr \<Rightarrow> (0, emit (Stderr (takeWhile (\<lambda>c. c \<noteq> NUL) buf)) w))"

text \<open>\<^verbatim>\<open>printf(pre "%d\n", v)\<close> on standard output.\<close>

definition printf_d :: "string \<Rightarrow> c_int \<Rightarrow> world \<Rightarrow> c_int \<times> world" where
  "printf_d pre v w = put (pre @ show_int (sint v) @ [NL]) w"

definition perror :: "string \<Rightarrow> world \<Rightarrow> world" where
  "perror s w = emit (Stderr (s @ '': '' @ strerror (errno w) @ [NL])) w"

section \<open>The line copier\<close>

text \<open>
  \<^verbatim>\<open>
  int dump_file(FILE *filep, FILE *output)
  {
    char buf[80];
    if (!filep) { errno = EINVAL; return -1; }
    while (fgets(buf, sizeof(buf)-1, filep)) {
      fputs(buf, output);
    }
    return 0;
  }
  \<close>
\<close>

text \<open>
  \<open>out\<close> is the parameter \<^verbatim>\<open>output\<close>: one of the two output streams of the process;
  \<open>main\<close> passes \<^verbatim>\<open>stdout\<close>.
\<close>

definition BUFSZ :: nat where
  "BUFSZ = 80"

lemma read_line_length: "read_line k s = (a, b) \<Longrightarrow> a @ b = s \<and> length a \<le> k"
  by (induction k s arbitrary: a b rule: read_line.induct)
     (auto split: if_splits prod.splits)

lemma fgets_Some:
  "fgets n f = Some (buf, f') \<Longrightarrow>
     buf \<noteq> [] \<and> pending f = buf @ pending f' \<and> length buf \<le> n - 1 \<and>
     f' = f\<lparr>pending := pending f'\<rparr>"
  by (auto simp: fgets_def split: prod.splits if_splits dest!: read_line_length)

lemma fgets_shrinks:
  "fgets n f = Some (buf, f') \<Longrightarrow> length (pending f') < length (pending f)"
  by (drule fgets_Some) auto

function copy_loop :: "FILE \<Rightarrow> ostream \<Rightarrow> world \<Rightarrow> world" where
  "copy_loop f out w =
     (case fgets (BUFSZ - 1) f of
        None \<Rightarrow> w
      | Some (buf, f') \<Rightarrow> copy_loop f' out (snd (fputs buf out w)))"
  by pat_completeness auto
termination
  by (relation "measure (\<lambda>(f, out, w). length (pending f))")
     (auto dest!: fgets_shrinks)

declare copy_loop.simps [simp del]

definition dump_file :: "FILE option \<Rightarrow> ostream \<Rightarrow> world \<Rightarrow> c_int \<times> world" where
  "dump_file filep out w =
     (case filep of
        None \<Rightarrow> (- 1, w\<lparr>errno := EINVAL\<rparr>)
      | Some f \<Rightarrow> (0, copy_loop f out w))"

section \<open>The argument parser\<close>

subsection \<open>getopt\<close>

text \<open>
  \<^verbatim>\<open>getopt\<close> keeps its position between calls: the rest of the option cluster it is
  in (\<open>nextchar\<close>) and the arguments not yet looked at (\<open>args\<close>, that is
  \<^verbatim>\<open>argv[optind..]\<close>). A call returns the option character and \<^verbatim>\<open>optarg\<close>, or
  \<open>None\<close> for \<^verbatim>\<open>EOF\<close>. \<^verbatim>\<open>opterr = 0\<close>: it prints nothing itself. \<^verbatim>\<open>optarg\<close> is only
  read by the program for options that take an argument; for the others the model
  gives the empty string.
\<close>

record getopt_state =
  nextchar :: string
  args :: "string list"

definition OPTSTR :: string where
  "OPTSTR = ''vf:n:''"

text \<open>\<open>optspec optstring c\<close>: is \<open>c\<close> an option letter, and does it take an argument?\<close>

fun optspec :: "string \<Rightarrow> char \<Rightarrow> bool option" where
  "optspec [] c = None"
| "optspec (x # xs) c =
     (if x = c \<and> c \<noteq> CHR '':'' then Some (case xs of [] \<Rightarrow> False | y # _ \<Rightarrow> y = CHR '':'')
      else optspec xs c)"

definition getopt_cluster ::
  "string \<Rightarrow> char \<Rightarrow> string \<Rightarrow> string list \<Rightarrow> (char \<times> string) \<times> getopt_state" where
  "getopt_cluster optstring c cs as =
     (case optspec optstring c of
        None \<Rightarrow> ((CHR ''?'', []), \<lparr>nextchar = cs, args = as\<rparr>)
      | Some False \<Rightarrow> ((c, []), \<lparr>nextchar = cs, args = as\<rparr>)
      | Some True \<Rightarrow>
          if cs \<noteq> [] then ((c, cs), \<lparr>nextchar = [], args = as\<rparr>)
          else (case as of
                  [] \<Rightarrow> ((CHR ''?'', []), \<lparr>nextchar = [], args = []\<rparr>)
                | a # as' \<Rightarrow> ((c, a), \<lparr>nextchar = [], args = as'\<rparr>)))"

text \<open>An operand: an argument that does not start with \<^verbatim>\<open>-\<close>, or is \<^verbatim>\<open>-\<close> alone.\<close>

definition is_operand :: "string \<Rightarrow> bool" where
  "is_operand a = (case a of [] \<Rightarrow> True | d # cs \<Rightarrow> d \<noteq> CHR ''-'' \<or> cs = [])"

definition getopt ::
  "bool \<Rightarrow> string \<Rightarrow> getopt_state \<Rightarrow> ((char \<times> string) \<times> getopt_state) option" where
  "getopt perm optstring g =
     (case nextchar g of
        c # cs \<Rightarrow> Some (getopt_cluster optstring c cs (args g))
      | [] \<Rightarrow>
          (case (if perm then dropWhile is_operand (args g) else args g) of
             [] \<Rightarrow> None
           | a # as \<Rightarrow>
               (case a of
                  d # c # cs \<Rightarrow>
                    if d = CHR ''-'' \<and> \<not> (c = CHR ''-'' \<and> cs = [])
                    then Some (getopt_cluster optstring c cs as)
                    else None
                | _ \<Rightarrow> None)))"

definition gsize :: "getopt_state \<Rightarrow> nat" where
  "gsize g = length (nextchar g) + sum_list (map (\<lambda>a. Suc (length a)) (args g))"

lemma sum_list_dropWhile:
  "sum_list (map (f :: 'a \<Rightarrow> nat) (dropWhile P xs)) \<le> sum_list (map f xs)"
  by (induction xs) auto

lemma getopt_cluster_gsize:
  "getopt_cluster os c cs as = (r, g') \<Longrightarrow>
     gsize g' \<le> length cs + sum_list (map (\<lambda>a. Suc (length a)) as)"
  by (auto simp: getopt_cluster_def gsize_def split: option.splits bool.splits if_splits list.splits)

lemma getopt_gsize: "getopt perm os g = Some (r, g') \<Longrightarrow> gsize g' < gsize g"
proof (cases "nextchar g")
  case (Cons c cs)
  assume "getopt perm os g = Some (r, g')"
  with Cons have "getopt_cluster os c cs (args g) = (r, g')"
    by (simp add: getopt_def)
  from getopt_cluster_gsize [OF this] Cons show ?thesis
    by (simp add: gsize_def)
next
  case Nil
  define rest where "rest = (if perm then dropWhile is_operand (args g) else args g)"
  have le: "sum_list (map (\<lambda>a. Suc (length a)) rest) \<le> sum_list (map (\<lambda>a. Suc (length a)) (args g))"
    by (simp add: rest_def sum_list_dropWhile)
  assume "getopt perm os g = Some (r, g')"
  with Nil obtain d c cs as where rest: "rest = (d # c # cs) # as"
    and cl: "getopt_cluster os c cs as = (r, g')"
    by (auto simp: getopt_def rest_def split: list.splits if_splits)
  from getopt_cluster_gsize [OF cl] rest le show ?thesis
    by (simp add: gsize_def)
qed

subsection \<open>strtoul and basename\<close>

definition isspace :: "char \<Rightarrow> bool" where
  "isspace c = (c \<in> set [CHR '' '', CHR 0x09, CHR 0x0A, CHR 0x0B, CHR 0x0C, CHR 0x0D])"

definition isdigit :: "char \<Rightarrow> bool" where
  "isdigit c = (c \<in> set ''0123456789'')"

definition digit_val :: "char \<Rightarrow> nat" where
  "digit_val c = of_char c - 48"

text \<open>The value of the decimal digits a string starts with, continuing from \<open>acc\<close>.\<close>

fun digits_val :: "nat \<Rightarrow> string \<Rightarrow> nat" where
  "digits_val acc [] = acc"
| "digits_val acc (c # cs) =
     (if isdigit c then digits_val (10 * acc + digit_val c) cs else acc)"

definition ULONG_MAX :: nat where
  "ULONG_MAX = 2 ^ 64 - 1"

text \<open>
  \<^verbatim>\<open>strtoul(s, NULL, 10)\<close>: white space is skipped, a sign is accepted, the digits
  that follow are converted; no digits give 0; a value beyond \<^verbatim>\<open>ULONG_MAX\<close> gives
  \<^verbatim>\<open>ULONG_MAX\<close>; a minus sign negates the value within \<^verbatim>\<open>unsigned long\<close>.
  \<open>after_sign s\<close> is where the digits are expected.
\<close>

definition after_sign :: "string \<Rightarrow> string" where
  "after_sign s =
     (case dropWhile isspace s of
        [] \<Rightarrow> []
      | c # cs \<Rightarrow> if c = CHR ''-'' \<or> c = CHR ''+'' then cs else c # cs)"

definition strtoul :: "string \<Rightarrow> c_ulong" where
  "strtoul s =
     (let neg = (case dropWhile isspace s of [] \<Rightarrow> False | c # _ \<Rightarrow> c = CHR ''-'');
          v = digits_val 0 (after_sign s)
      in if ULONG_MAX < v then word_of_nat ULONG_MAX
         else if neg then - word_of_nat v
         else word_of_nat v)"

text \<open>POSIX \<^verbatim>\<open>basename\<close> (the one \<^verbatim>\<open>libgen.h\<close> declares).\<close>

definition basename :: "string \<Rightarrow> string" where
  "basename path =
     (if path = [] then ''.''
      else (let p = rev (dropWhile (\<lambda>c. c = CHR ''/'') (rev path)) in
            if p = [] then ''/''
            else rev (takeWhile (\<lambda>c. c \<noteq> CHR ''/'') (rev p))))"

subsection \<open>main\<close>

text \<open>
  \<^verbatim>\<open>
  int main(int argc, char *argv[])
  {
    int opt; int verbose = 0; int number = 0; FILE *fp = NULL;
    opterr = 0;
    while((opt = getopt(argc, argv, OPTSTR))!= EOF)
      switch(opt) {
        case 'v': verbose ++; break;
        case 'f':
          if (fp) fclose(fp);
          if (!(fp=fopen(optarg,"r"))) {
            perror("-f: error opening file"); exit(EXIT_FAILURE);
          }
          break;
        case 'n': number = strtoul(optarg, NULL, 10); break;
        case 'h': case '?': default:
          fprintf(stderr, "usage: %s [-v]|[-f filename][-n integer]\n", basename(argv[0]));
          exit(EXIT_FAILURE);
      }
    printf("verbose = %d\n", verbose);
    printf("number  = %d\n", number);
    if (dump_file(fp, stdout) < 0 ){ perror("dump_file"); exit(EXIT_FAILURE); }
    return EXIT_SUCCESS;
  }
  \<close>
  The local variables are a record; \<^verbatim>\<open>exit(status)\<close> inside the loop is the result
  \<open>Inl status\<close>. \<^verbatim>\<open>verbose ++\<close> is addition on 32-bit words. The assignment of the
  \<^verbatim>\<open>unsigned long\<close> to the \<^verbatim>\<open>int number\<close> keeps the low 32 bits.
\<close>

record locals =
  verbose :: c_int
  number :: c_int
  fp :: "FILE option"

definition EXIT_SUCCESS :: c_int where
  "EXIT_SUCCESS = 0"

definition EXIT_FAILURE :: c_int where
  "EXIT_FAILURE = 1"

definition usage :: "string list \<Rightarrow> string" where
  "usage argv =
     ''usage: '' @ basename (case argv of [] \<Rightarrow> [] | a # _ \<Rightarrow> a) @
     '' [-v]|[-f filename][-n integer]'' @ [NL]"

text \<open>The \<^verbatim>\<open>switch\<close>: one pass through the loop body for the option \<^verbatim>\<open>getopt\<close> returned.\<close>

definition switch_opt ::
  "env \<Rightarrow> string list \<Rightarrow> char \<times> string \<Rightarrow> locals \<Rightarrow> world \<Rightarrow> (c_int + locals) \<times> world" where
  "switch_opt E argv oa L w =
     (case oa of (opt, optarg) \<Rightarrow>
        if opt = CHR ''v'' then (Inr (L\<lparr>verbose := verbose L + 1\<rparr>), w)
        else if opt = CHR ''f'' then
          (case fopen E optarg (case fp L of None \<Rightarrow> w | Some f \<Rightarrow> fclose f w) of
             (None, w') \<Rightarrow> (Inl EXIT_FAILURE, perror ''-f: error opening file'' w')
           | (Some f, w') \<Rightarrow> (Inr (L\<lparr>fp := Some f\<rparr>), w'))
        else if opt = CHR ''n'' then (Inr (L\<lparr>number := ucast (strtoul optarg)\<rparr>), w)
        else (Inl EXIT_FAILURE, emit (Stderr (usage argv)) w))"

function opt_loop ::
  "env \<Rightarrow> string list \<Rightarrow> getopt_state \<Rightarrow> locals \<Rightarrow> world \<Rightarrow> (c_int + locals) \<times> world" where
  "opt_loop E argv g L w =
     (case getopt (permute E) OPTSTR g of
        None \<Rightarrow> (Inr L, w)
      | Some (oa, g') \<Rightarrow>
          (case switch_opt E argv oa L w of
             (Inl status, w') \<Rightarrow> (Inl status, w')
           | (Inr L', w') \<Rightarrow> opt_loop E argv g' L' w'))"
  by pat_completeness auto
termination
  by (relation "measure (\<lambda>(E, argv, g, L, w). gsize g)")
     (auto dest!: getopt_gsize)

declare opt_loop.simps [simp del]

definition main :: "env \<Rightarrow> string list \<Rightarrow> nat option \<Rightarrow> c_int \<times> world" where
  "main E argv r =
     (case opt_loop E argv \<lparr>nextchar = [], args = drop 1 argv\<rparr>
             \<lparr>verbose = 0, number = 0, fp = None\<rparr>
             \<lparr>events = [], room = r, errno = ENONE\<rparr> of
        (Inl status, w) \<Rightarrow> (status, w)
      | (Inr L, w) \<Rightarrow>
          (case dump_file (fp L) stdout
                  (snd (printf_d ''number  = '' (number L)
                     (snd (printf_d ''verbose = '' (verbose L) w)))) of
             (rc, w') \<Rightarrow>
               if rc <s 0 then (EXIT_FAILURE, perror ''dump_file'' w')
               else (EXIT_SUCCESS, w')))"

section \<open>The options of a command line\<close>

text \<open>
  \<^verbatim>\<open>getopt\<close> does not depend on what the program does between two calls, so a
  command line has a list of options of its own: what \<^verbatim>\<open>getopt\<close> returns, call
  after call, until it returns \<^verbatim>\<open>EOF\<close>. An unknown option letter and an option
  that lacks its argument both appear in it as \<^verbatim>\<open>?\<close>.
\<close>

function getopt_all :: "bool \<Rightarrow> string \<Rightarrow> getopt_state \<Rightarrow> (char \<times> string) list" where
  "getopt_all perm os g =
     (case getopt perm os g of
        None \<Rightarrow> []
      | Some (oa, g') \<Rightarrow> oa # getopt_all perm os g')"
  by pat_completeness auto
termination
  by (relation "measure (\<lambda>(perm, os, g). gsize g)")
     (auto dest!: getopt_gsize)

declare getopt_all.simps [simp del]

definition options :: "env \<Rightarrow> string list \<Rightarrow> (char \<times> string) list" where
  "options E argv = getopt_all (permute E) OPTSTR \<lparr>nextchar = [], args = drop 1 argv\<rparr>"

text \<open>The loop of \<open>main\<close> over a given list of options.\<close>

fun run_opts ::
  "env \<Rightarrow> string list \<Rightarrow> (char \<times> string) list \<Rightarrow> locals \<Rightarrow> world \<Rightarrow> (c_int + locals) \<times> world" where
  "run_opts E argv [] L w = (Inr L, w)"
| "run_opts E argv (oa # ts) L w =
     (case switch_opt E argv oa L w of
        (Inl status, w') \<Rightarrow> (Inl status, w')
      | (Inr L', w') \<Rightarrow> run_opts E argv ts L' w')"

lemma opt_loop_run_opts:
  "opt_loop E argv g L w = run_opts E argv (getopt_all (permute E) OPTSTR g) L w"
proof (induction E argv g L w rule: opt_loop.induct)
  case (1 E argv g L w)
  show ?case
  proof (cases "getopt (permute E) OPTSTR g")
    case None
    then show ?thesis
      by (simp add: opt_loop.simps [of E argv g] getopt_all.simps [of _ _ g])
  next
    case (Some r)
    obtain oa g' where r: "r = (oa, g')" by (cases r)
    obtain res w' where sw: "switch_opt E argv oa L w = (res, w')"
      by (cases "switch_opt E argv oa L w")
    show ?thesis
    proof (cases res)
      case (Inl status)
      with Some r sw show ?thesis
        by (simp add: opt_loop.simps [of E argv g] getopt_all.simps [of _ _ g])
    next
      case (Inr L')
      with Some r sw "1.IH" show ?thesis
        by (simp add: opt_loop.simps [of E argv g] getopt_all.simps [of _ _ g])
    qed
  qed
qed

section \<open>What the parser computes\<close>

text \<open>
  The effect of the loop in terms of the list of options. \<open>accepted\<close>: the option
  is \<^verbatim>\<open>-v\<close>, \<^verbatim>\<open>-n\<close> with its argument, or \<^verbatim>\<open>-f\<close> with a path that opens.
  \<open>last_arg c\<close>: the argument of the last option \<open>c\<close>. \<open>handle_events\<close>: the
  \<^verbatim>\<open>fclose\<close> and \<^verbatim>\<open>fopen\<close> calls the \<^verbatim>\<open>-f\<close> options cause. \<open>parsed\<close>: the local
  variables after a loop over accepted options.
\<close>

definition opened :: "env \<Rightarrow> string \<Rightarrow> FILE option" where
  "opened E path =
     (case fs E path of
        Inl e \<Rightarrow> None
      | Inr d \<Rightarrow> Some \<lparr>name = path, pending = bytes d, rerr = broken d\<rparr>)"

definition accepted :: "env \<Rightarrow> char \<times> string \<Rightarrow> bool" where
  "accepted E oa =
     (fst oa = CHR ''v'' \<or> fst oa = CHR ''n'' \<or> (fst oa = CHR ''f'' \<and> \<not> isl (fs E (snd oa))))"

definition count_v :: "(char \<times> string) list \<Rightarrow> nat" where
  "count_v ts = length (filter (\<lambda>oa. fst oa = CHR ''v'') ts)"

fun last_arg :: "char \<Rightarrow> (char \<times> string) list \<Rightarrow> string option" where
  "last_arg c [] = None"
| "last_arg c (oa # ts) =
     (case last_arg c ts of
        Some a \<Rightarrow> Some a
      | None \<Rightarrow> if fst oa = c then Some (snd oa) else None)"

fun handle_events :: "string option \<Rightarrow> (char \<times> string) list \<Rightarrow> event list" where
  "handle_events cur [] = []"
| "handle_events cur (oa # ts) =
     (if fst oa = CHR ''f''
      then (case cur of None \<Rightarrow> [] | Some p \<Rightarrow> [Fclose p]) @ Fopen (snd oa) #
           handle_events (Some (snd oa)) ts
      else handle_events cur ts)"

definition parsed :: "env \<Rightarrow> (char \<times> string) list \<Rightarrow> locals \<Rightarrow> locals" where
  "parsed E ts L =
     \<lparr>verbose = verbose L + of_nat (count_v ts),
      number = (case last_arg (CHR ''n'') ts of None \<Rightarrow> number L | Some a \<Rightarrow> ucast (strtoul a)),
      fp = (case last_arg (CHR ''f'') ts of None \<Rightarrow> fp L | Some p \<Rightarrow> opened E p)\<rparr>"

lemma switch_v:
  "switch_opt E argv (CHR ''v'', a) L w = (Inr (L\<lparr>verbose := verbose L + 1\<rparr>), w)"
  by (simp add: switch_opt_def)

lemma switch_n:
  "switch_opt E argv (CHR ''n'', a) L w = (Inr (L\<lparr>number := ucast (strtoul a)\<rparr>), w)"
  by (simp add: switch_opt_def)

lemma switch_f_ok:
  "fs E a = Inr d \<Longrightarrow>
   switch_opt E argv (CHR ''f'', a) L w =
     (Inr (L\<lparr>fp := opened E a\<rparr>),
      w\<lparr>events := events w @ (case fp L of None \<Rightarrow> [] | Some g \<Rightarrow> [Fclose (name g)]) @ [Fopen a]\<rparr>)"
  by (simp add: switch_opt_def fopen_def fclose_def emit_def opened_def split: option.splits)

lemma switch_f_fail:
  "fs E a = Inl e \<Longrightarrow>
   switch_opt E argv (CHR ''f'', a) L w =
     (Inl EXIT_FAILURE,
      w\<lparr>events := events w @ (case fp L of None \<Rightarrow> [] | Some g \<Rightarrow> [Fclose (name g)]) @
             [Stderr (''-f: error opening file: '' @ strerror e @ [NL])],
        errno := e\<rparr>)"
  by (simp add: switch_opt_def fopen_def fclose_def emit_def perror_def split: option.splits)

lemma switch_other:
  "c \<noteq> CHR ''v'' \<Longrightarrow> c \<noteq> CHR ''f'' \<Longrightarrow> c \<noteq> CHR ''n'' \<Longrightarrow>
   switch_opt E argv (c, a) L w =
     (Inl EXIT_FAILURE, w\<lparr>events := events w @ [Stderr (usage argv)]\<rparr>)"
  by (simp add: switch_opt_def emit_def)

lemma run_opts_accepted:
  "list_all (accepted E) ts \<Longrightarrow>
   run_opts E argv ts L w =
     (Inr (parsed E ts L),
      w\<lparr>events := events w @ handle_events (map_option name (fp L)) ts\<rparr>)"
proof (induction ts arbitrary: L w)
  case Nil
  then show ?case by (simp add: parsed_def count_v_def)
next
  case (Cons oa ts)
  obtain c a where oa: "oa = (c, a)" by (cases oa)
  from Cons.prems have acc: "accepted E (c, a)" and rest: "list_all (accepted E) ts"
    by (simp_all add: oa)
  from acc consider (v) "c = CHR ''v''" | (n) "c = CHR ''n''"
    | (f) d where "c = CHR ''f''" "fs E a = Inr d"
    by (auto simp: accepted_def isl_def) (metis sum.exhaust_sel isl_def)
  then show ?case
  proof cases
    case v
    then show ?thesis
      using Cons.IH [OF rest]
      by (simp add: oa switch_v parsed_def count_v_def split: option.splits)
  next
    case n
    then show ?thesis
      using Cons.IH [OF rest]
      by (simp add: oa switch_n parsed_def count_v_def split: option.splits)
  next
    case f
    then show ?thesis
      using Cons.IH [OF rest]
      by (simp add: oa switch_f_ok parsed_def count_v_def opened_def split: option.splits)
  qed
qed

section \<open>Properties of the line copier\<close>

text \<open>
  \<open>reads f\<close> lists what the loop's calls of \<^verbatim>\<open>fgets\<close> put into \<^verbatim>\<open>buf\<close>, call after
  call, starting from the stream \<open>f\<close>.
\<close>

function reads :: "FILE \<Rightarrow> string list" where
  "reads f =
     (case fgets (BUFSZ - 1) f of
        None \<Rightarrow> []
      | Some (buf, f') \<Rightarrow> buf # reads f')"
  by pat_completeness auto
termination
  by (relation "measure (\<lambda>f. length (pending f))")
     (auto dest!: fgets_shrinks)

declare reads.simps [simp del]

lemma read_line_no_inner_NL: "read_line k s = (a, b) \<Longrightarrow> NL \<notin> set (butlast a)"
  by (induction k s arbitrary: a b rule: read_line.induct)
     (auto split: if_splits prod.splits)

lemma read_line_empty: "read_line k s = ([], b) \<Longrightarrow> 0 < k \<Longrightarrow> s = []"
  by (cases s) (auto split: if_splits prod.splits)

lemma read_line_prefix:
  "length a = k \<Longrightarrow> NL \<notin> set a \<Longrightarrow> read_line k (a @ b) = (a, b)"
proof (induction a arbitrary: k)
  case Nil
  then show ?case by (cases b) auto
next
  case (Cons c a)
  then show ?case by (cases k) auto
qed

lemma fgets_None_eof: "fgets (BUFSZ - 1) f = None \<Longrightarrow> \<not> rerr f \<Longrightarrow> pending f = []"
  by (auto simp: fgets_def BUFSZ_def split: prod.splits if_splits dest: read_line_empty)

lemma fgets_keeps_rerr: "fgets n f = Some (buf, f') \<Longrightarrow> rerr f' = rerr f"
  by (auto simp: fgets_def split: prod.splits if_splits)

lemma fgets_buf:
  "fgets (BUFSZ - 1) f = Some (buf, f') \<Longrightarrow>
     buf \<noteq> [] \<and> length buf \<le> 78 \<and> NL \<notin> set (butlast buf)"
  by (auto simp: fgets_def BUFSZ_def split: prod.splits if_splits
           dest: read_line_no_inner_NL read_line_length)

lemma reads_concat: "\<not> rerr f \<Longrightarrow> concat (reads f) = pending f"
proof (induction f rule: reads.induct)
  case (1 f)
  show ?case
  proof (cases "fgets (BUFSZ - 1) f")
    case None
    with "1.prems" show ?thesis
      by (simp add: reads.simps [of f] fgets_None_eof)
  next
    case (Some r)
    obtain buf f' where r: "r = (buf, f')" by (cases r)
    from Some r have "pending f = buf @ pending f'" and "rerr f' = rerr f"
      by (auto dest: fgets_Some fgets_keeps_rerr)
    with Some r "1.IH" "1.prems" show ?thesis
      by (simp add: reads.simps [of f])
  qed
qed

lemma reads_bounds:
  "b \<in> set (reads f) \<Longrightarrow> b \<noteq> [] \<and> length b \<le> 78 \<and> NL \<notin> set (butlast b)"
proof (induction f rule: reads.induct)
  case (1 f)
  show ?case
  proof (cases "fgets (BUFSZ - 1) f")
    case None
    with "1.prems" show ?thesis
      by (simp add: reads.simps [of f])
  next
    case (Some r)
    obtain buf f' where r: "r = (buf, f')" by (cases r)
    from "1.prems" Some r have "b = buf \<or> b \<in> set (reads f')"
      by (simp add: reads.simps [of f])
    with Some r "1.IH" fgets_buf [of f buf f'] show ?thesis
      by auto
  qed
qed

lemma reads_text: "NUL \<notin> set (pending f) \<Longrightarrow> b \<in> set (reads f) \<Longrightarrow> NUL \<notin> set b"
proof (induction f rule: reads.induct)
  case (1 f)
  show ?case
  proof (cases "fgets (BUFSZ - 1) f")
    case None
    with "1.prems" show ?thesis
      by (simp add: reads.simps [of f])
  next
    case (Some r)
    obtain buf f' where r: "r = (buf, f')" by (cases r)
    from Some r have p: "pending f = buf @ pending f'"
      by (auto dest: fgets_Some)
    from "1.prems" Some r have "b = buf \<or> b \<in> set (reads f')"
      by (simp add: reads.simps [of f])
    with Some r "1.IH" "1.prems"(1) p show ?thesis
      by auto
  qed
qed

lemma fputs_unlimited:
  "room w = None \<Longrightarrow>
     snd (fputs buf stdout w) =
       w\<lparr>events := events w @ [Stdout (takeWhile (\<lambda>c. c \<noteq> NUL) buf)]\<rparr>"
  by (simp add: fputs_def put_def emit_def)

lemma copy_loop_events_any:
  "room w = None \<Longrightarrow> out = stdout \<Longrightarrow>
     copy_loop f out w =
       w\<lparr>events := events w @ map (\<lambda>b. Stdout (takeWhile (\<lambda>c. c \<noteq> NUL) b)) (reads f)\<rparr>"
proof (induction f out w rule: copy_loop.induct)
  case (1 f out w)
  show ?case
  proof (cases "fgets (BUFSZ - 1) f")
    case None
    then show ?thesis
      by (simp add: copy_loop.simps [of f out w] reads.simps [of f])
  next
    case (Some r)
    obtain buf f' where r: "r = (buf, f')" by (cases r)
    let ?w' = "w\<lparr>events := events w @ [Stdout (takeWhile (\<lambda>c. c \<noteq> NUL) buf)]\<rparr>"
    have w': "snd (fputs buf out w) = ?w'"
      using "1.prems" by (simp add: fputs_unlimited)
    have "copy_loop f out w = copy_loop f' out ?w'"
      using Some r w' by (simp add: copy_loop.simps [of f out w])
    also have "\<dots> = ?w'\<lparr>events := events ?w' @
        map (\<lambda>b. Stdout (takeWhile (\<lambda>c. c \<noteq> NUL) b)) (reads f')\<rparr>"
      using "1.IH" [OF Some r [symmetric]] w' "1.prems" by simp
    also have "\<dots> = w\<lparr>events := events w @
        map (\<lambda>b. Stdout (takeWhile (\<lambda>c. c \<noteq> NUL) b)) (reads f)\<rparr>"
      using Some r by (simp add: reads.simps [of f])
    finally show ?thesis .
  qed
qed

lemma copy_loop_events:
  "room w = None \<Longrightarrow>
     copy_loop f stdout w =
       w\<lparr>events := events w @ map (\<lambda>b. Stdout (takeWhile (\<lambda>c. c \<noteq> NUL) b)) (reads f)\<rparr>"
  by (simp add: copy_loop_events_any)

lemma length_concat_le:
  "(\<And>b. b \<in> set xs \<Longrightarrow> length b \<le> k) \<Longrightarrow> length (concat xs) \<le> k * length xs"
  by (induction xs) (auto simp: add_le_mono)

lemma reads_long_line:
  assumes "pending f = l @ rest" "78 < length l" "NL \<notin> set (take 78 l)"
  shows "reads f = take 78 l # reads (f\<lparr>pending := drop 78 l @ rest\<rparr>)"
proof -
  have "read_line 78 (take 78 l @ (drop 78 l @ rest)) = (take 78 l, drop 78 l @ rest)"
    using assms by (intro read_line_prefix) auto
  then have rl: "read_line 78 (pending f) = (take 78 l, drop 78 l @ rest)"
    using assms(1) by (simp flip: append_assoc)
  have "take 78 l \<noteq> []" using assms(2) by auto
  with rl assms(2) have "fgets (BUFSZ - 1) f = Some (take 78 l, f\<lparr>pending := drop 78 l @ rest\<rparr>)"
    by (simp add: fgets_def BUFSZ_def)
  then show ?thesis
    by (simp add: reads.simps [of f])
qed

lemma read_line_newline:
  "NL \<notin> set l \<Longrightarrow> length l < k \<Longrightarrow> read_line k (l @ NL # rest) = (l @ [NL], rest)"
proof (induction l arbitrary: k)
  case Nil
  then show ?case by simp
next
  case (Cons c l)
  from Cons.prems have "length l < k - 1" by simp
  with Cons.IH [of "k - 1"] Cons.prems show ?case by auto
qed

lemma read_line_all: "NL \<notin> set l \<Longrightarrow> length l \<le> k \<Longrightarrow> read_line k l = (l, [])"
proof (induction l arbitrary: k)
  case Nil
  then show ?case by simp
next
  case (Cons c l)
  from Cons.prems have "length l \<le> k - 1" by simp
  with Cons.IH [of "k - 1"] Cons.prems show ?case by auto
qed

lemma reads_empty: "pending f = [] \<Longrightarrow> reads f = []"
  by (simp add: reads.simps [of f] fgets_def)

lemma reads_fitting_line:
  assumes "pending f = l @ NL # rest" "NL \<notin> set l" "length l < 78"
  shows "reads f = (l @ [NL]) # reads (f\<lparr>pending := rest\<rparr>)"
proof -
  have "read_line 78 (pending f) = (l @ [NL], rest)"
    using assms by (simp add: read_line_newline)
  then have "fgets (BUFSZ - 1) f = Some (l @ [NL], f\<lparr>pending := rest\<rparr>)"
    by (simp add: fgets_def BUFSZ_def)
  then show ?thesis
    by (simp add: reads.simps [of f])
qed

lemma reads_last_line:
  assumes "NL \<notin> set (pending f)" "pending f \<noteq> []" "length (pending f) \<le> 78"
    and "\<not> rerr f \<or> length (pending f) = 78"
  shows "reads f = [pending f]"
proof -
  have "read_line 78 (pending f) = (pending f, [])"
    using assms(1,3) by (simp add: read_line_all)
  with assms(2,4) have "fgets (BUFSZ - 1) f = Some (pending f, f\<lparr>pending := []\<rparr>)"
    by (auto simp: fgets_def BUFSZ_def)
  then show ?thesis
    by (simp add: reads.simps [of f] reads_empty)
qed

lemma reads_read_error:
  assumes "NL \<notin> set (pending f)" "length (pending f) < 78" "rerr f"
  shows "reads f = []"
proof -
  have "read_line 78 (pending f) = (pending f, [])"
    using assms(1,2) by (simp add: read_line_all)
  moreover have "pending f = [] \<or> last (pending f) \<noteq> NL"
    using assms(1) last_in_set [of "pending f"] by fastforce
  ultimately have "fgets (BUFSZ - 1) f = None"
    using assms(2,3) by (auto simp: fgets_def BUFSZ_def)
  then show ?thesis
    by (simp add: reads.simps [of f])
qed

lemma read_line_short:
  "read_line k s = (a, b) \<Longrightarrow> length a < k \<Longrightarrow> a = [] \<or> last a \<noteq> NL \<Longrightarrow> b = []"
  by (induction k s arbitrary: a b rule: read_line.induct)
     (auto split: if_splits prod.splits)

lemma reads_Cons:
  "reads f = x # rest \<Longrightarrow> \<exists>f'. fgets (BUFSZ - 1) f = Some (x, f') \<and> rest = reads f'"
  by (simp add: reads.simps [of f] split: option.splits prod.splits)

lemma fgets_partial_is_last:
  assumes "fgets (BUFSZ - 1) f = Some (b, f')" and "last b \<noteq> NL" and "length b \<noteq> 78"
  shows "pending f' = []"
proof -
  obtain buf rest where rl: "read_line 78 (pending f) = (buf, rest)"
    by (cases "read_line 78 (pending f)")
  with assms(1) have b: "b = buf" and f': "pending f' = rest"
    by (auto simp: fgets_def BUFSZ_def split: if_splits)
  from rl have "length buf \<le> 78"
    by (auto dest: read_line_length)
  with assms(3) b have "length buf < 78" by simp
  with rl assms(2) b have "rest = []"
    by (auto dest: read_line_short)
  with f' show ?thesis by simp
qed

lemma reads_inner:
  "reads f = xs @ b # ys \<Longrightarrow> ys \<noteq> [] \<Longrightarrow> last b = NL \<or> length b = 78"
proof (induction xs arbitrary: f)
  case Nil
  then have "reads f = b # ys" by simp
  from reads_Cons [OF this] obtain f' where f': "fgets (BUFSZ - 1) f = Some (b, f')" "ys = reads f'"
    by blast
  show ?case
  proof (rule ccontr)
    assume "\<not> (last b = NL \<or> length b = 78)"
    with fgets_partial_is_last [OF f'(1)] have "pending f' = []" by simp
    with f'(2) Nil.prems(2) show False by (simp add: reads_empty)
  qed
next
  case (Cons x xs)
  then have "reads f = x # (xs @ b # ys)" by simp
  from reads_Cons [OF this] obtain f' where "xs @ b # ys = reads f'"
    by blast
  with Cons.IH [of f'] Cons.prems(2) show ?case by simp
qed

text \<open>
  Claim C4. Every read of the line copier returns at most 78 bytes, so at most 79
  with the terminating NUL, in a buffer of 80; a newline can only be the last byte
  of what a read returns. What a read returns is fixed by the input in front of
  it: a line of at most 78 bytes with its newline is read whole, newline included;
  of a longer line the read takes the first 78 bytes and the next read goes on
  behind them; a last line without newline, of at most 78 bytes, is read whole
  when the input ends with end-of-file; at the end of the input the loop stops. So
  every read but the last ends with a newline or fills the 78 bytes. Each read is
  followed by one write of the bytes read up to their first NUL byte: for text,
  which has no NUL byte, of exactly the bytes read. On an input that ends with
  end-of-file the reads together are the input, line terminators included. A line of
  more than 78 bytes is not an error: an input of \<open>n\<close> bytes takes at least \<open>n / 78\<close>
  reads, and \<open>dump_file\<close> returns 0. A read error ends the loop like end-of-file,
  and a piece of line read just before it is dropped.
\<close>

theorem line_copier_reads:
  "(\<forall>b \<in> set (reads f). b \<noteq> [] \<and> length b + 1 \<le> 79 \<and> NL \<notin> set (butlast b)) \<and>
   fst (dump_file (Some f) stdout w) = 0 \<and>
   (room w = None \<longrightarrow>
      events (snd (dump_file (Some f) stdout w)) =
        events w @ map (\<lambda>b. Stdout (takeWhile (\<lambda>c. c \<noteq> NUL) b)) (reads f)) \<and>
   (room w = None \<and> NUL \<notin> set (pending f) \<longrightarrow>
      events (snd (dump_file (Some f) stdout w)) = events w @ map Stdout (reads f)) \<and>
   (\<not> rerr f \<longrightarrow>
      concat (reads f) = pending f \<and> length (pending f) \<le> 78 * length (reads f)) \<and>
   (\<forall>l rest. pending f = l @ rest \<and> 78 < length l \<and> NL \<notin> set (take 78 l) \<longrightarrow>
      reads f = take 78 l # reads (f\<lparr>pending := drop 78 l @ rest\<rparr>)) \<and>
   (\<forall>l rest. pending f = l @ NL # rest \<and> NL \<notin> set l \<and> length l < 78 \<longrightarrow>
      reads f = (l @ [NL]) # reads (f\<lparr>pending := rest\<rparr>)) \<and>
   (NL \<notin> set (pending f) \<and> pending f \<noteq> [] \<and> length (pending f) \<le> 78 \<and>
    (\<not> rerr f \<or> length (pending f) = 78) \<longrightarrow> reads f = [pending f]) \<and>
   (NL \<notin> set (pending f) \<and> length (pending f) < 78 \<and> rerr f \<longrightarrow> reads f = []) \<and>
   (pending f = [] \<longrightarrow> reads f = []) \<and>
   (\<forall>xs b ys. reads f = xs @ b # ys \<and> ys \<noteq> [] \<longrightarrow> last b = NL \<or> length b = 78)"
proof -
  have bounds: "\<forall>b \<in> set (reads f). b \<noteq> [] \<and> length b + 1 \<le> 79 \<and> NL \<notin> set (butlast b)"
    using reads_bounds [of _ f] by auto
  have status: "fst (dump_file (Some f) stdout w) = 0"
    by (simp add: dump_file_def)
  have written: "events (snd (dump_file (Some f) stdout w)) =
      events w @ map (\<lambda>b. Stdout (takeWhile (\<lambda>c. c \<noteq> NUL) b)) (reads f)"
    if "room w = None"
    using copy_loop_events [OF that, of f] by (simp add: dump_file_def)
  have verbatim: "events (snd (dump_file (Some f) stdout w)) = events w @ map Stdout (reads f)"
    if "room w = None" "NUL \<notin> set (pending f)"
  proof -
    have "map (\<lambda>b. Stdout (takeWhile (\<lambda>c. c \<noteq> NUL) b)) (reads f) = map Stdout (reads f)"
      using reads_text [OF that(2)] by (auto simp: takeWhile_eq_all_conv)
    with written [OF that(1)] show ?thesis by simp
  qed
  have whole: "concat (reads f) = pending f \<and> length (pending f) \<le> 78 * length (reads f)"
    if "\<not> rerr f"
  proof -
    have "length (concat (reads f)) \<le> 78 * length (reads f)"
      using reads_bounds [of _ f] by (intro length_concat_le) auto
    with reads_concat [OF that] show ?thesis by simp
  qed
  from bounds status written verbatim whole reads_long_line [of f]
  have first: "(\<forall>b \<in> set (reads f). b \<noteq> [] \<and> length b + 1 \<le> 79 \<and> NL \<notin> set (butlast b)) \<and>
      fst (dump_file (Some f) stdout w) = 0 \<and>
      (room w = None \<longrightarrow>
         events (snd (dump_file (Some f) stdout w)) =
           events w @ map (\<lambda>b. Stdout (takeWhile (\<lambda>c. c \<noteq> NUL) b)) (reads f)) \<and>
      (room w = None \<and> NUL \<notin> set (pending f) \<longrightarrow>
         events (snd (dump_file (Some f) stdout w)) = events w @ map Stdout (reads f)) \<and>
      (\<not> rerr f \<longrightarrow>
         concat (reads f) = pending f \<and> length (pending f) \<le> 78 * length (reads f)) \<and>
      (\<forall>l rest. pending f = l @ rest \<and> 78 < length l \<and> NL \<notin> set (take 78 l) \<longrightarrow>
         reads f = take 78 l # reads (f\<lparr>pending := drop 78 l @ rest\<rparr>))"
    by blast
  have fits: "\<forall>l rest. pending f = l @ NL # rest \<and> NL \<notin> set l \<and> length l < 78 \<longrightarrow>
      reads f = (l @ [NL]) # reads (f\<lparr>pending := rest\<rparr>)"
    using reads_fitting_line [of f] by blast
  have last: "NL \<notin> set (pending f) \<and> pending f \<noteq> [] \<and> length (pending f) \<le> 78 \<and>
      (\<not> rerr f \<or> length (pending f) = 78) \<longrightarrow> reads f = [pending f]"
    using reads_last_line [of f] by blast
  have lost: "NL \<notin> set (pending f) \<and> length (pending f) < 78 \<and> rerr f \<longrightarrow> reads f = []"
    using reads_read_error [of f] by blast
  have none: "pending f = [] \<longrightarrow> reads f = []"
    by (simp add: reads_empty)
  have inner: "\<forall>xs b ys. reads f = xs @ b # ys \<and> ys \<noteq> [] \<longrightarrow> last b = NL \<or> length b = 78"
    using reads_inner [of f] by blast
  from first fits last lost none inner show ?thesis
    by (intro conjI) (elim conjE, assumption)+
qed

theorem line_copier_reads_witness:
  "NUL \<notin> set (''xxxxxxxxxxxxxxxxxxxxxxxxxxxxxxxxxxxxxxxxxxxxxxxxxxxxxxxxxxxxxxxxxxxxxxxxxxxxxx'' @ ''yz'' @ [NL] @ ''c'') \<and>
   reads \<lparr>name = ''a.txt'', pending = ''xxxxxxxxxxxxxxxxxxxxxxxxxxxxxxxxxxxxxxxxxxxxxxxxxxxxxxxxxxxxxxxxxxxxxxxxxxxxxx'' @ ''yz'' @ [NL] @ ''c'', rerr = False\<rparr> =
     [''xxxxxxxxxxxxxxxxxxxxxxxxxxxxxxxxxxxxxxxxxxxxxxxxxxxxxxxxxxxxxxxxxxxxxxxxxxxxxx'', ''yz'' @ [NL], ''c''] \<and>
   dump_file (Some \<lparr>name = ''a.txt'', pending = ''xxxxxxxxxxxxxxxxxxxxxxxxxxxxxxxxxxxxxxxxxxxxxxxxxxxxxxxxxxxxxxxxxxxxxxxxxxxxxx'' @ ''yz'' @ [NL] @ ''c'', rerr = False\<rparr>)
       stdout \<lparr>events = [], room = None, errno = ENONE\<rparr> =
     (0, \<lparr>events = [Stdout ''xxxxxxxxxxxxxxxxxxxxxxxxxxxxxxxxxxxxxxxxxxxxxxxxxxxxxxxxxxxxxxxxxxxxxxxxxxxxxx'', Stdout (''yz'' @ [NL]), Stdout ''c''],
          room = None, errno = ENONE\<rparr>) \<and>
   reads \<lparr>name = ''a.txt'', pending = ''ab'' @ [NL] @ [NL] @ ''cd'', rerr = False\<rparr> =
     [''ab'' @ [NL], [NL], ''cd''] \<and>
   reads \<lparr>name = ''a.txt'', pending = ''ab'' @ [NL] @ ''cd'', rerr = True\<rparr> = [''ab'' @ [NL]]"
  using line_copier_reads
    [of "\<lparr>name = ''a.txt'', pending = ''xxxxxxxxxxxxxxxxxxxxxxxxxxxxxxxxxxxxxxxxxxxxxxxxxxxxxxxxxxxxxxxxxxxxxxxxxxxxxx'' @ ''yz'' @ [NL] @ ''c'', rerr = False\<rparr>"
      "\<lparr>events = [], room = None, errno = ENONE\<rparr>"]
  by (simp add: reads.simps fgets_def BUFSZ_def NUL_def NL_def
      dump_file_def copy_loop.simps fputs_def put_def emit_def
      cong: option.case_cong_weak prod.case_cong_weak)


section \<open>The whole run\<close>

lemma run_opts_append:
  "run_opts E argv (xs @ ys) L w =
     (case run_opts E argv xs L w of
        (Inl status, w') \<Rightarrow> (Inl status, w')
      | (Inr L', w') \<Rightarrow> run_opts E argv ys L' w')"
  by (induction xs arbitrary: L w) (auto split: prod.splits sum.splits)

text \<open>The \<^verbatim>\<open>fclose\<close> that a further \<^verbatim>\<open>-f\<close> causes after the options \<open>ts\<close>.\<close>

definition closing :: "env \<Rightarrow> (char \<times> string) list \<Rightarrow> event list" where
  "closing E ts =
     (case last_arg (CHR ''f'') ts of
        None \<Rightarrow> []
      | Some p \<Rightarrow> (case opened E p of None \<Rightarrow> [] | Some g \<Rightarrow> [Fclose (name g)]))"

text \<open>What the first option that is not accepted makes the program write, and the errno it leaves.\<close>

definition complaint :: "env \<Rightarrow> string list \<Rightarrow> char \<times> string \<Rightarrow> string" where
  "complaint E argv oa =
     (if fst oa = CHR ''f''
      then ''-f: error opening file: '' @ strerror (projl (fs E (snd oa))) @ [NL]
      else usage argv)"

lemma run_opts_rejected:
  assumes "list_all (accepted E) pre" and "\<not> accepted E oa" and "fp L = None"
  shows "run_opts E argv (pre @ oa # post) L w =
     (Inl EXIT_FAILURE,
      w\<lparr>events := events w @ handle_events None pre @
             (if fst oa = CHR ''f'' then closing E pre else []) @ [Stderr (complaint E argv oa)],
        errno := (if fst oa = CHR ''f'' then projl (fs E (snd oa)) else errno w)\<rparr>)"
proof -
  obtain c a where oa: "oa = (c, a)" by (cases oa)
  let ?L = "parsed E pre L"
  let ?w = "w\<lparr>events := events w @ handle_events None pre\<rparr>"
  have pre: "run_opts E argv pre L w = (Inr ?L, ?w)"
    using run_opts_accepted [OF assms(1), of argv L w] assms(3) by simp
  have cl: "(case fp ?L of None \<Rightarrow> [] | Some g \<Rightarrow> [Fclose (name g)]) = closing E pre"
    using assms(3) by (simp add: parsed_def closing_def split: option.splits)
  show ?thesis
  proof (cases "c = CHR ''f''")
    case True
    with assms(2) oa obtain e where e: "fs E a = Inl e"
      by (cases "fs E a") (auto simp: accepted_def)
    from True e cl show ?thesis
      by (simp add: run_opts_append pre oa switch_f_fail complaint_def)
  next
    case False
    with assms(2) oa have "c \<noteq> CHR ''v''" "c \<noteq> CHR ''n''"
      by (auto simp: accepted_def)
    with False show ?thesis
      by (simp add: run_opts_append pre oa switch_other complaint_def)
  qed
qed

lemma not_all_accepted:
  "\<not> list_all (accepted E) ts \<Longrightarrow>
     \<exists>pre oa post. ts = pre @ oa # post \<and> list_all (accepted E) pre \<and> \<not> accepted E oa"
proof (induction ts)
  case Nil
  then show ?case by simp
next
  case (Cons t ts)
  show ?case
  proof (cases "accepted E t")
    case False
    then have "t # ts = [] @ t # ts \<and> list_all (accepted E) [] \<and> \<not> accepted E t" by simp
    then show ?thesis by blast
  next
    case True
    with Cons obtain pre oa post where "ts = pre @ oa # post" "list_all (accepted E) pre" "\<not> accepted E oa"
      by auto
    with True have "t # ts = (t # pre) @ oa # post \<and> list_all (accepted E) (t # pre) \<and> \<not> accepted E oa"
      by simp
    then show ?thesis by blast
  qed
qed

text \<open>\<open>main\<close> on a command line whose options are all accepted, and on one with an option that is not.\<close>

definition summary :: "locals \<Rightarrow> event list" where
  "summary L =
     [Stdout (''verbose = '' @ show_int (sint (verbose L)) @ [NL]),
      Stdout (''number  = '' @ show_int (sint (number L)) @ [NL])]"

definition initially :: locals where
  "initially = \<lparr>verbose = 0, number = 0, fp = None\<rparr>"

lemma put_unlimited: "room w = None \<Longrightarrow> snd (put s w) = w\<lparr>events := events w @ [Stdout s]\<rparr>"
  by (simp add: put_def emit_def)

lemma opt_loop_options:
  "opt_loop E argv \<lparr>nextchar = [], args = drop (Suc 0) argv\<rparr> L w =
     run_opts E argv (options E argv) L w"
  by (simp add: opt_loop_run_opts options_def)

lemma main_accepted:
  assumes "list_all (accepted E) (options E argv)"
  shows "main E argv None =
     (case fp (parsed E (options E argv) initially) of
        None \<Rightarrow>
          (EXIT_FAILURE,
           \<lparr>events = handle_events None (options E argv) @
               summary (parsed E (options E argv) initially) @
               [Stderr (''dump_file: Invalid argument'' @ [NL])],
            room = None, errno = EINVAL\<rparr>)
      | Some f \<Rightarrow>
          (EXIT_SUCCESS,
           \<lparr>events = handle_events None (options E argv) @
               summary (parsed E (options E argv) initially) @
               map (\<lambda>b. Stdout (takeWhile (\<lambda>c. c \<noteq> NUL) b)) (reads f),
            room = None, errno = ENONE\<rparr>))"
proof -
  let ?T = "options E argv"
  let ?L = "parsed E ?T initially"
  let ?w = "\<lparr>events = handle_events None ?T, room = None, errno = ENONE\<rparr>"
  have loop: "opt_loop E argv \<lparr>nextchar = [], args = drop (Suc 0) argv\<rparr>
      \<lparr>verbose = 0, number = 0, fp = None\<rparr> \<lparr>events = [], room = None, errno = ENONE\<rparr> =
      (Inr ?L, ?w)"
    using run_opts_accepted [OF assms, of argv initially "\<lparr>events = [], room = None, errno = ENONE\<rparr>"]
    by (simp add: opt_loop_options initially_def)
  let ?w2 = "\<lparr>events = handle_events None ?T @ summary ?L, room = None, errno = ENONE\<rparr>"
  have pr: "snd (printf_d ''number  = '' (number ?L) (snd (printf_d ''verbose = '' (verbose ?L) ?w))) = ?w2"
    by (simp add: printf_d_def put_unlimited summary_def)
  show ?thesis
  proof (cases "fp ?L")
    case None
    then show ?thesis
      by (simp add: main_def loop pr dump_file_def perror_def emit_def)
  next
    case (Some f)
    then show ?thesis
      by (simp add: main_def loop pr dump_file_def copy_loop_events)
  qed
qed

lemma main_rejected:
  assumes "options E argv = pre @ oa # post"
    and "list_all (accepted E) pre" and "\<not> accepted E oa"
  shows "main E argv r =
     (EXIT_FAILURE,
      \<lparr>events = handle_events None pre @
         (if fst oa = CHR ''f'' then closing E pre else []) @ [Stderr (complaint E argv oa)],
       room = r,
       errno = (if fst oa = CHR ''f'' then projl (fs E (snd oa)) else ENONE)\<rparr>)"
  using run_opts_rejected [OF assms(2,3), of "\<lparr>verbose = 0, number = 0, fp = None\<rparr>" argv post
      "\<lparr>events = [], room = r, errno = ENONE\<rparr>"]
  by (simp add: main_def opt_loop_options assms(1))


text \<open>
  The two ways parsing ends the process: \<open>unknown_opt\<close> is an option \<^verbatim>\<open>getopt\<close>
  reports that is none of \<^verbatim>\<open>v\<close>, \<^verbatim>\<open>f\<close>, \<^verbatim>\<open>n\<close> (a usage error); \<open>unopenable\<close> is a
  \<^verbatim>\<open>-f\<close> whose path does not open.
\<close>

definition unknown_opt :: "char \<times> string \<Rightarrow> bool" where
  "unknown_opt oa = (fst oa \<noteq> CHR ''v'' \<and> fst oa \<noteq> CHR ''f'' \<and> fst oa \<noteq> CHR ''n'')"

definition unopenable :: "env \<Rightarrow> char \<times> string \<Rightarrow> bool" where
  "unopenable E oa = (fst oa = CHR ''f'' \<and> isl (fs E (snd oa)))"

lemma accepted_iff: "accepted E oa \<longleftrightarrow> \<not> unknown_opt oa \<and> \<not> unopenable E oa"
  by (auto simp: accepted_def unknown_opt_def unopenable_def)

lemma all_accepted_iff:
  "list_all (accepted E) ts \<longleftrightarrow> \<not> list_ex unknown_opt ts \<and> \<not> list_ex (unopenable E) ts"
  by (induction ts) (auto simp: accepted_iff)

lemma last_arg_None: "last_arg c ts = None \<longleftrightarrow> c \<notin> fst ` set ts"
  by (induction ts) (auto split: option.splits)

lemma last_arg_in: "last_arg c ts = Some a \<Longrightarrow> (c, a) \<in> set ts"
  by (induction ts) (auto split: option.splits if_splits)

lemma accepted_opened:
  "list_all (accepted E) ts \<Longrightarrow> last_arg (CHR ''f'') ts = Some p \<Longrightarrow>
     \<exists>d. fs E p = Inr d \<and> opened E p = Some \<lparr>name = p, pending = bytes d, rerr = broken d\<rparr>"
proof -
  assume all: "list_all (accepted E) ts" and "last_arg (CHR ''f'') ts = Some p"
  then have "(CHR ''f'', p) \<in> set ts" by (rule_tac last_arg_in)
  with all have "accepted E (CHR ''f'', p)" by (auto simp: list_all_iff)
  then show ?thesis
    by (cases "fs E p") (auto simp: accepted_def opened_def)
qed

lemma parsed_fp_None:
  "list_all (accepted E) ts \<Longrightarrow>
     fp (parsed E ts initially) = None \<longleftrightarrow> CHR ''f'' \<notin> fst ` set ts"
  by (auto simp: parsed_def initially_def last_arg_None [symmetric] split: option.splits
           dest: accepted_opened)

lemma main_status_accepted:
  assumes "list_all (accepted E) (options E argv)"
  shows "fst (main E argv r) =
     (if CHR ''f'' \<in> fst ` set (options E argv) then EXIT_SUCCESS else EXIT_FAILURE)"
proof -
  let ?L = "parsed E (options E argv) initially"
  obtain w where loop: "opt_loop E argv \<lparr>nextchar = [], args = drop (Suc 0) argv\<rparr>
      \<lparr>verbose = 0, number = 0, fp = None\<rparr> \<lparr>events = [], room = r, errno = ENONE\<rparr> = (Inr ?L, w)"
    using run_opts_accepted [OF assms, of argv initially "\<lparr>events = [], room = r, errno = ENONE\<rparr>"]
    by (simp add: opt_loop_options initially_def)
  have "fst (main E argv r) = (case fp ?L of None \<Rightarrow> EXIT_FAILURE | Some f \<Rightarrow> EXIT_SUCCESS)"
    by (simp add: main_def loop dump_file_def split: option.splits prod.splits)
  with parsed_fp_None [OF assms] show ?thesis
    by (auto split: option.splits)
qed

lemma main_status_rejected:
  assumes "\<not> list_all (accepted E) (options E argv)"
  shows "fst (main E argv r) = EXIT_FAILURE"
proof -
  from not_all_accepted [OF assms] obtain pre oa post
    where "options E argv = pre @ oa # post" "list_all (accepted E) pre" "\<not> accepted E oa"
    by blast
  from main_rejected [OF this] show ?thesis by simp
qed

subsection \<open>Standard output and standard error of a run\<close>

lemma stdout_of_append [simp]: "stdout_of (xs @ ys) = stdout_of xs @ stdout_of ys"
  by (induction xs rule: stdout_of.induct) auto

lemma stderr_of_append [simp]: "stderr_of (xs @ ys) = stderr_of xs @ stderr_of ys"
  by (induction xs rule: stderr_of.induct) auto

lemma open_count_append [simp]: "open_count (xs @ ys) = open_count xs + open_count ys"
  by (induction xs rule: open_count.induct) auto

lemma handle_events_quiet [simp]:
  "stdout_of (handle_events cur ts) = []" "stderr_of (handle_events cur ts) = []"
  by (induction cur ts rule: handle_events.induct) (auto split: option.splits)

lemma closing_quiet [simp]: "stdout_of (closing E ts) = []" "stderr_of (closing E ts) = []"
  by (auto simp: closing_def split: option.splits)

lemma summary_out [simp]:
  "stdout_of (summary L) =
     ''verbose = '' @ show_int (sint (verbose L)) @ [NL] @
     ''number  = '' @ show_int (sint (number L)) @ [NL]"
  "stderr_of (summary L) = []"
  by (simp_all add: summary_def)

lemma copied_out [simp]:
  "stdout_of (map (\<lambda>b. Stdout (g b)) bs) = concat (map g bs)"
  "stderr_of (map (\<lambda>b. Stdout (g b)) bs) = []"
  by (induction bs) auto

text \<open>What the copy writes for the stream \<open>fp\<close> holds at the end of parsing.\<close>

definition copied :: "FILE option \<Rightarrow> string" where
  "copied filep =
     (case filep of
        None \<Rightarrow> []
      | Some f \<Rightarrow> concat (map (takeWhile (\<lambda>c. c \<noteq> NUL)) (reads f)))"

lemma main_accepted_stdout:
  assumes "list_all (accepted E) (options E argv)"
  shows "stdout_of (events (snd (main E argv None))) =
     ''verbose = '' @ show_int (sint (verbose (parsed E (options E argv) initially))) @ [NL] @
     ''number  = '' @ show_int (sint (number (parsed E (options E argv) initially))) @ [NL] @
     copied (fp (parsed E (options E argv) initially))"
  by (simp add: main_accepted [OF assms] copied_def split: option.splits)

lemma copied_text:
  assumes "NUL \<notin> set (pending f)" and "\<not> rerr f"
  shows "copied (Some f) = pending f"
proof -
  have "map (takeWhile (\<lambda>c. c \<noteq> NUL)) (reads f) = reads f"
    using reads_text [OF assms(1)] by (intro map_idI) (auto simp: takeWhile_eq_all_conv)
  with reads_concat [OF assms(2)] show ?thesis
    by (simp add: copied_def)
qed

lemma options_f_only: "options E [prog, ''-f'', path] = [(CHR ''f'', path)]"
  by (simp add: options_def getopt_all.simps getopt_def getopt_cluster_def OPTSTR_def is_operand_def
      cong: option.case_cong_weak prod.case_cong_weak list.case_cong_weak)

lemma show_int_0: "show_int 0 = ''0''"
  by (simp add: show_int_def show_nat.simps)

lemma copies_text_file_general:
  assumes "list_all (accepted E) (options E argv)"
    and "last_arg (CHR ''f'') (options E argv) = Some path"
    and "fs E path = Inr d" and "\<not> broken d" and "NUL \<notin> set (bytes d)"
  shows "fst (main E argv None) = EXIT_SUCCESS \<and>
     stdout_of (events (snd (main E argv None))) =
       ''verbose = '' @ show_int (sint (verbose (parsed E (options E argv) initially))) @ [NL] @
       ''number  = '' @ show_int (sint (number (parsed E (options E argv) initially))) @ [NL] @
       bytes d \<and>
     stderr_of (events (snd (main E argv None))) = []"
proof -
  let ?f = "\<lparr>name = path, pending = bytes d, rerr = broken d\<rparr>"
  have fp: "fp (parsed E (options E argv) initially) = Some ?f"
    using assms(2,3) by (simp add: parsed_def opened_def)
  have "copied (Some ?f) = bytes d"
    using copied_text [of ?f] assms(4,5) by simp
  with fp show ?thesis
    by (simp add: main_accepted [OF assms(1)] main_accepted_stdout [OF assms(1)] copied_def)
qed

subsection \<open>Counting and printing\<close>

lemma sint_word_of_nat: "n < 2 ^ 31 \<Longrightarrow> sint (word_of_nat n :: c_int) = int n"
proof -
  assume "n < 2 ^ 31"
  then have "int n < 2 ^ 31"
    by (metis of_nat_less_iff of_nat_numeral of_nat_power)
  then show ?thesis
    by (simp add: signed_of_nat signed_take_bit_int_eq_self)
qed

lemma show_int_nat: "show_int (int n) = show_nat n"
  by (simp add: show_int_def)

lemma getopt_all_v:
  "getopt_all perm OPTSTR \<lparr>nextchar = [], args = ''-v'' # as\<rparr> =
     (CHR ''v'', []) # getopt_all perm OPTSTR \<lparr>nextchar = [], args = as\<rparr>"
  by (subst getopt_all.simps)
     (simp add: getopt_def getopt_cluster_def OPTSTR_def is_operand_def)

lemma getopt_all_replicate_v:
  "getopt_all perm OPTSTR \<lparr>nextchar = [], args = replicate k ''-v'' @ as\<rparr> =
     replicate k (CHR ''v'', []) @ getopt_all perm OPTSTR \<lparr>nextchar = [], args = as\<rparr>"
  by (induction k) (simp_all add: getopt_all_v)

lemma options_replicate_v:
  "options E (prog # replicate k ''-v'' @ as) = replicate k (CHR ''v'', []) @ options E (prog # as)"
  by (simp add: options_def getopt_all_replicate_v)

lemma options_none: "options E [prog] = []"
  by (simp add: options_def getopt_all.simps getopt_def)

lemma handle_events_no_f: "CHR ''f'' \<notin> fst ` set ts \<Longrightarrow> handle_events cur ts = []"
  by (induction cur ts rule: handle_events.induct) auto

lemma parsed_verbose: "verbose (parsed E ts initially) = word_of_nat (count_v ts)"
  by (simp add: parsed_def initially_def)

subsection \<open>Parsing decimal numerals\<close>










subsection \<open>The first option that is not accepted\<close>

lemma first_rejected:
  assumes "\<not> accepted E oa"
  shows "\<exists>p' o' q'. pre @ oa # post = p' @ o' # q' \<and> list_all (accepted E) p' \<and>
           \<not> accepted E o' \<and> o' \<in> set (pre @ [oa])"
proof -
  from assms have "\<not> list_all (accepted E) (pre @ [oa])" by simp
  from not_all_accepted [OF this] obtain p' o' q
    where split: "pre @ [oa] = p' @ o' # q" and p': "list_all (accepted E) p'" and o': "\<not> accepted E o'"
    by blast
  from split have "o' \<in> set (pre @ [oa])"
    by (metis in_set_conv_decomp)
  moreover from split have "pre @ oa # post = p' @ o' # (q @ post)"
    by (metis append.assoc append_Cons append_Nil)
  ultimately show ?thesis
    using p' o' by blast
qed

lemma optspec_unknown:
  "c \<noteq> CHR ''v'' \<Longrightarrow> c \<noteq> CHR ''f'' \<Longrightarrow> c \<noteq> CHR ''n'' \<Longrightarrow> optspec OPTSTR c = None"
  by (simp add: OPTSTR_def)

lemma options_unknown_first:
  assumes "c \<noteq> CHR ''v''" "c \<noteq> CHR ''f''" "c \<noteq> CHR ''n''" and "c = CHR ''-'' \<longrightarrow> cs \<noteq> []"
  shows "\<exists>post. options E (prog # (CHR ''-'' # c # cs) # rest) = (CHR ''?'', []) # post"
  using assms
  by (subst options_def, subst getopt_all.simps)
     (auto simp: getopt_def getopt_cluster_def is_operand_def optspec_unknown)

lemma usage_message:
  "usage (prog # av) = ''usage: '' @ basename prog @ '' [-v]|[-f filename][-n integer]'' @ [NL]"
  by (simp add: usage_def)

subsection \<open>Open streams\<close>

text \<open>\<open>within k es\<close>: starting with \<open>k\<close> open streams, the events \<open>es\<close> never leave the range 0 to 1.\<close>

fun within :: "int \<Rightarrow> event list \<Rightarrow> bool" where
  "within k [] = (0 \<le> k \<and> k \<le> 1)"
| "within k (e # es) = (0 \<le> k \<and> k \<le> 1 \<and> within (k + open_count [e]) es)"

lemma within_range: "within k es \<Longrightarrow> 0 \<le> k \<and> k \<le> 1"
  by (cases es) auto

lemma open_count_Cons: "open_count (e # es) = open_count [e] + open_count es"
  by (cases e) auto

lemma within_take:
  "within k es \<Longrightarrow> 0 \<le> k + open_count (take n es) \<and> k + open_count (take n es) \<le> 1"
proof (induction es arbitrary: k n)
  case Nil
  then show ?case by simp
next
  case (Cons e es)
  show ?case
  proof (cases n)
    case 0
    with Cons.prems show ?thesis by simp
  next
    case (Suc m)
    from Cons.prems have "within (k + open_count [e]) es" by simp
    from Cons.IH [OF this, of m] Suc show ?thesis
      by (simp add: open_count_Cons [of e "take m es"] add.assoc)
  qed
qed

lemma within_append:
  "within k (xs @ ys) \<longleftrightarrow> within k xs \<and> within (k + open_count xs) ys"
proof (induction xs arbitrary: k)
  case Nil
  then show ?case by (auto dest: within_range)
next
  case (Cons e xs)
  then show ?case
    by (simp add: open_count_Cons [of e xs] add.assoc)
qed

lemma within_quiet:
  "set xs \<subseteq> range Stdout \<union> range Stderr \<Longrightarrow> 0 \<le> k \<Longrightarrow> k \<le> 1 \<Longrightarrow> within k xs"
  by (induction xs arbitrary: k) auto

lemma within_handle_events:
  "within (if cur = None then 0 else 1) (handle_events cur ts) \<and>
   (if cur = None then 0 else 1) + open_count (handle_events cur ts) =
     (if CHR ''f'' \<in> fst ` set ts then 1 else if cur = None then 0 else 1)"
proof (induction cur ts rule: handle_events.induct)
  case (1 cur)
  then show ?case by simp
next
  case (2 cur oa ts)
  show ?case
  proof (cases "fst oa = CHR ''f''")
    case False
    with 2 show ?thesis by (auto simp: image_iff)
  next
    case True
    with 2 have IH: "within 1 (handle_events (Some (snd oa)) ts)"
      "1 + open_count (handle_events (Some (snd oa)) ts) = 1"
      by (simp_all split: if_splits)
    from True IH show ?thesis
      by (cases cur) (auto simp: image_iff)
  qed
qed

text \<open>Writes do not touch the streams: what \<open>put\<close>, \<open>copy_loop\<close> and \<open>dump_file\<close> add is output only.\<close>

lemma put_events:
  "\<exists>xs. events (snd (put s w)) = events w @ xs \<and> set xs \<subseteq> range Stdout \<union> range Stderr"
  by (auto simp: put_def emit_def split: option.splits)

lemma fputs_events:
  "\<exists>xs. events (snd (fputs buf out w)) = events w @ xs \<and>
        set xs \<subseteq> range Stdout \<union> range Stderr"
  using put_events [of "takeWhile (\<lambda>c. c \<noteq> NUL) buf" w]
  by (cases out) (auto simp: fputs_def emit_def)

lemma copy_loop_quiet:
  "\<exists>xs. events (copy_loop f out w) = events w @ xs \<and> set xs \<subseteq> range Stdout \<union> range Stderr"
proof (induction f out w rule: copy_loop.induct)
  case (1 f out w)
  show ?case
  proof (cases "fgets (BUFSZ - 1) f")
    case None
    then show ?thesis
      by (simp add: copy_loop.simps [of f out w])
  next
    case (Some r)
    obtain buf f' where r: "r = (buf, f')" by (cases r)
    from fputs_events [of buf out w] obtain xs
      where xs: "events (snd (fputs buf out w)) = events w @ xs"
        "set xs \<subseteq> range Stdout \<union> range Stderr"
      by blast
    from "1.IH" [OF Some r [symmetric]] obtain ys
      where ys: "events (copy_loop f' out (snd (fputs buf out w))) =
          events (snd (fputs buf out w)) @ ys"
        "set ys \<subseteq> range Stdout \<union> range Stderr"
      by blast
    have "events (copy_loop f out w) = events w @ (xs @ ys)"
      using Some r xs(1) ys(1) by (simp add: copy_loop.simps [of f out w])
    moreover have "set (xs @ ys) \<subseteq> range Stdout \<union> range Stderr"
      using xs(2) ys(2) by simp
    ultimately show ?thesis by blast
  qed
qed

lemma report_quiet:
  "\<exists>xs. events (snd (case dump_file filep stdout (snd (put a (snd (put b w)))) of
            (rc, w') \<Rightarrow> if rc <s 0 then (EXIT_FAILURE, perror ''dump_file'' w') else (EXIT_SUCCESS, w'))) =
          events w @ xs \<and> set xs \<subseteq> range Stdout \<union> range Stderr"
proof -
  from put_events [of b w] obtain xs
    where xs: "events (snd (put b w)) = events w @ xs" "set xs \<subseteq> range Stdout \<union> range Stderr"
    by blast
  from put_events [of a "snd (put b w)"] obtain ys
    where ys: "events (snd (put a (snd (put b w)))) = events (snd (put b w)) @ ys"
      "set ys \<subseteq> range Stdout \<union> range Stderr"
    by blast
  let ?w = "snd (put a (snd (put b w)))"
  show ?thesis
  proof (cases filep)
    case None
    have "events (perror ''dump_file'' (?w\<lparr>errno := EINVAL\<rparr>)) =
        events w @ (xs @ ys @ [Stderr (''dump_file: '' @ strerror EINVAL @ [NL])])"
      using xs(1) ys(1) by (simp add: perror_def emit_def)
    moreover have "set (xs @ ys @ [Stderr (''dump_file: '' @ strerror EINVAL @ [NL])])
        \<subseteq> range Stdout \<union> range Stderr"
      using xs(2) ys(2) by auto
    ultimately show ?thesis
      using None by (simp add: dump_file_def)
  next
    case (Some f)
    from copy_loop_quiet [of f stdout ?w] obtain zs
      where zs: "events (copy_loop f stdout ?w) = events ?w @ zs"
        "set zs \<subseteq> range Stdout \<union> range Stderr"
      by blast
    have "events (copy_loop f stdout ?w) = events w @ (xs @ ys @ zs)"
      using xs(1) ys(1) zs(1) by simp
    moreover have "set (xs @ ys @ zs) \<subseteq> range Stdout \<union> range Stderr"
      using xs(2) ys(2) zs(2) by auto
    ultimately show ?thesis
      using Some by (simp add: dump_file_def)
  qed
qed

lemma main_handles:
  "within 0 (events (snd (main E argv r)))"
proof (cases "list_all (accepted E) (options E argv)")
  case True
  let ?T = "options E argv"
  let ?L = "parsed E ?T initially"
  let ?w = "\<lparr>events = handle_events None ?T, room = r, errno = ENONE\<rparr>"
  have loop: "opt_loop E argv \<lparr>nextchar = [], args = drop (Suc 0) argv\<rparr>
      \<lparr>verbose = 0, number = 0, fp = None\<rparr> \<lparr>events = [], room = r, errno = ENONE\<rparr> = (Inr ?L, ?w)"
    using run_opts_accepted [OF True, of argv initially "\<lparr>events = [], room = r, errno = ENONE\<rparr>"]
    by (simp add: opt_loop_options initially_def)
  let ?a = "''number  = '' @ show_int (sint (number ?L)) @ [NL]"
  let ?b = "''verbose = '' @ show_int (sint (verbose ?L)) @ [NL]"
  have "main E argv r =
      (case dump_file (fp ?L) stdout (snd (put ?a (snd (put ?b ?w)))) of
         (rc, w') \<Rightarrow> if rc <s 0 then (EXIT_FAILURE, perror ''dump_file'' w') else (EXIT_SUCCESS, w'))"
    by (simp add: main_def loop printf_d_def)
  with report_quiet [of "fp ?L" ?a ?b ?w] obtain xs
    where xs: "events (snd (main E argv r)) = handle_events None ?T @ xs"
      "set xs \<subseteq> range Stdout \<union> range Stderr"
    by auto
  from within_handle_events [of None ?T] have "within 0 (handle_events None ?T)"
    and "0 \<le> open_count (handle_events None ?T)" "open_count (handle_events None ?T) \<le> 1"
    by (simp_all split: if_splits)
  with xs show ?thesis
    by (simp add: within_append within_quiet)
next
  case False
  from not_all_accepted [OF False] obtain pre oa post
    where split: "options E argv = pre @ oa # post" and pre: "list_all (accepted E) pre"
      and oa: "\<not> accepted E oa"
    by blast
  let ?tail = "(if fst oa = CHR ''f'' then closing E pre else []) @ [Stderr (complaint E argv oa)]"
  have ev: "events (snd (main E argv r)) = handle_events None pre @ ?tail"
    using main_rejected [OF split pre oa, of r] by simp
  have h: "within 0 (handle_events None pre)"
    and cnt: "open_count (handle_events None pre) = (if CHR ''f'' \<in> fst ` set pre then 1 else 0)"
    using within_handle_events [of None pre] by simp_all
  have cl: "closing E pre = (if CHR ''f'' \<in> fst ` set pre then [Fclose (the (last_arg (CHR ''f'') pre))] else [])"
  proof (cases "last_arg (CHR ''f'') pre")
    case None
    then have "CHR ''f'' \<notin> fst ` set pre" by (simp add: last_arg_None)
    with None show ?thesis by (simp add: closing_def)
  next
    case (Some p)
    with accepted_opened [OF pre Some] last_arg_None [of "CHR ''f''" pre] show ?thesis
      by (auto simp: closing_def)
  qed
  have "within (open_count (handle_events None pre)) ?tail"
    by (simp add: cnt cl)
  with h ev show ?thesis
    by (simp add: within_append)
qed


lemma options_two_f:
  "options E [prog, ''-f'', p1, ''-f'', p2] = [(CHR ''f'', p1), (CHR ''f'', p2)]"
  by (simp add: options_def getopt_all.simps getopt_def getopt_cluster_def OPTSTR_def is_operand_def
      cong: option.case_cong_weak prod.case_cong_weak list.case_cong_weak)

subsection \<open>Command lines that differ in verbosity\<close>

text \<open>The options of a command line without its \<^verbatim>\<open>-v\<close> flags.\<close>

definition without_v :: "(char \<times> string) list \<Rightarrow> (char \<times> string) list" where
  "without_v ts = filter (\<lambda>oa. fst oa \<noteq> CHR ''v'') ts"

lemma accepted_without_v: "list_all (accepted E) (without_v ts) \<longleftrightarrow> list_all (accepted E) ts"
  by (induction ts) (auto simp: without_v_def accepted_def)

lemma last_arg_without_v: "c \<noteq> CHR ''v'' \<Longrightarrow> last_arg c (without_v ts) = last_arg c ts"
  by (induction ts) (auto simp: without_v_def split: option.splits)

lemma main_rejected_stdout:
  assumes "\<not> list_all (accepted E) (options E argv)"
  shows "stdout_of (events (snd (main E argv r))) = []"
proof -
  from not_all_accepted [OF assms] obtain pre oa post
    where "options E argv = pre @ oa # post" "list_all (accepted E) pre" "\<not> accepted E oa"
    by blast
  from main_rejected [OF this] show ?thesis by simp
qed

lemma without_v_replicate:
  "without_v (options E (prog # replicate k ''-v'' @ av)) = without_v (options E (prog # av))"
  by (simp add: options_replicate_v without_v_def)

subsection \<open>A sample environment for concrete runs\<close>

definition sample_env :: env where
  "sample_env =
     \<lparr>fs = (\<lambda>p. if p = ''a.txt'' then Inr \<lparr>bytes = ''one'' @ [NL] @ ''two'', broken = False\<rparr>
                else if p = ''b.txt'' then Inr \<lparr>bytes = ''BBB'' @ [NL], broken = False\<rparr>
                else if p = ''line.txt'' then
                  Inr \<lparr>bytes = ''xxxxxxxxxxxxxxxxxxxxxxxxxxxxxxxxxxxxxxxxxxxxxxxxxxxxxxxxxxxxxxxxxxxxxxxxxxxxxx'' @ [NL], broken = False\<rparr>
                else if p = ''bad.txt'' then Inr \<lparr>bytes = ''x'' @ [NL] @ ''lost'', broken = True\<rparr>
                else if p = ''secret.txt'' then Inl EACCES
                else if p = ''a.txt/x'' then Inl ENOTDIR
                else Inl ENOENT),
      permute = False\<rparr>"

lemmas run_defs =
  main_def opt_loop.simps switch_opt_def getopt_def getopt_cluster_def OPTSTR_def
  fopen_def fclose_def emit_def perror_def usage_def basename_def
  strtoul_def after_sign_def isspace_def isdigit_def digit_val_def ULONG_MAX_def
  printf_d_def put_def show_int_def show_nat.simps
  dump_file_def copy_loop.simps fgets_def fputs_def BUFSZ_def
  NUL_def NL_def EXIT_SUCCESS_def EXIT_FAILURE_def sample_env_def

lemmas opt_defs =
  options_def getopt_all.simps is_operand_def
  accepted_def unknown_opt_def unopenable_def count_v_def

section \<open>The claims\<close>

text \<open>
  Claim C2. \<open>dump_file\<close> fails exactly when its input is NULL: it then returns \<open>-1\<close>
  with \<^verbatim>\<open>errno = EINVAL\<close> and writes nothing. On every stream it returns 0,
  whether reading stopped at end-of-file or at a read error (\<open>rerr\<close>) and whether or
  not standard output took the writes (\<open>room\<close>). The exit status of \<open>main\<close> is
  \<^verbatim>\<open>EXIT_SUCCESS\<close> exactly when the command line has no usage error, no \<^verbatim>\<open>-f\<close> that
  fails to open, and at least one \<^verbatim>\<open>-f\<close>; otherwise it is \<^verbatim>\<open>EXIT_FAILURE\<close>.
\<close>

theorem copy_fails_iff_null_input:
  "dump_file None out w = (- 1, w\<lparr>errno := EINVAL\<rparr>) \<and>
   events (snd (dump_file None out w)) = events w \<and>
   fst (dump_file (Some f) out w) = 0 \<and>
   fst (dump_file (Some (f\<lparr>rerr := True\<rparr>)) stdout (w\<lparr>room := Some 0\<rparr>)) = 0 \<and>
   (fst (dump_file filep out w) <s 0 \<longleftrightarrow> filep = None) \<and>
   (fst (main E argv r) = EXIT_SUCCESS \<longleftrightarrow>
      \<not> list_ex unknown_opt (options E argv) \<and>
      \<not> list_ex (unopenable E) (options E argv) \<and>
      CHR ''f'' \<in> fst ` set (options E argv)) \<and>
   (fst (main E argv r) \<noteq> EXIT_SUCCESS \<longleftrightarrow> fst (main E argv r) = EXIT_FAILURE)"
proof -
  have st: "fst (main E argv r) =
      (if list_all (accepted E) (options E argv) \<and> CHR ''f'' \<in> fst ` set (options E argv)
       then EXIT_SUCCESS else EXIT_FAILURE)"
    by (cases "list_all (accepted E) (options E argv)")
       (simp_all add: main_status_accepted main_status_rejected)
  have ne: "EXIT_SUCCESS \<noteq> EXIT_FAILURE"
    by (simp add: EXIT_SUCCESS_def EXIT_FAILURE_def)
  have "fst (main E argv r) = EXIT_SUCCESS \<longleftrightarrow>
      \<not> list_ex unknown_opt (options E argv) \<and>
      \<not> list_ex (unopenable E) (options E argv) \<and>
      CHR ''f'' \<in> fst ` set (options E argv)"
    using ne by (auto simp: st all_accepted_iff)
  moreover have "fst (main E argv r) \<noteq> EXIT_SUCCESS \<longleftrightarrow> fst (main E argv r) = EXIT_FAILURE"
    using ne by (auto simp: st)
  moreover have "fst (dump_file filep out w) <s 0 \<longleftrightarrow> filep = None"
    by (cases filep) (simp_all add: dump_file_def)
  ultimately show ?thesis
    by (simp add: dump_file_def)
qed

theorem copy_fails_iff_null_input_witness:
  "dump_file (Some \<lparr>name = ''bad.txt'', pending = ''x'' @ [NL] @ ''lost'', rerr = True\<rparr>)
      stdout \<lparr>events = [], room = Some 0, errno = ENONE\<rparr> =
     (0, \<lparr>events = [Stdout []], room = Some 0, errno = EIO\<rparr>) \<and>
   main sample_env [''prog'', ''-f'', ''bad.txt''] (Some 30) =
     (0, \<lparr>events = [Fopen ''bad.txt'', Stdout (''verbose = 0'' @ [NL]),
                     Stdout (''number  = 0'' @ [NL]), Stdout (''x'' @ [NL])],
          room = Some 4, errno = ENONE\<rparr>) \<and>
   fst (main sample_env [''prog'', ''-v''] None) = 1 \<and>
   fst (main sample_env [''prog'', ''-f'', ''nowhere.txt''] None) = 1 \<and>
   fst (main sample_env [''prog'', ''-f'', ''a.txt'', ''-x''] None) = 1"
  using copy_fails_iff_null_input
    [of stdout "\<lparr>events = [], room = Some 0, errno = ENONE\<rparr>"
        "\<lparr>name = ''bad.txt'', pending = ''x'' @ [NL] @ ''lost'', rerr = True\<rparr>"
        "Some \<lparr>name = ''bad.txt'', pending = ''x'' @ [NL] @ ''lost'', rerr = True\<rparr>"
        sample_env "[''prog'', ''-f'', ''bad.txt'']" "Some 30"]
  by (simp add: run_defs
      cong: option.case_cong_weak prod.case_cong_weak sum.case_cong_weak list.case_cong_weak)


text \<open>
  Claim C1. Let \<open>path\<close> name a readable text file: it opens, reading it ends with
  end-of-file, and it has no NUL byte. On every valid command line (all options
  accepted) whose last \<^verbatim>\<open>-f\<close> names it, the program exits with \<^verbatim>\<open>EXIT_SUCCESS\<close>,
  writes nothing to the error stream, and its standard output is the
  \<^verbatim>\<open>verbose\<close> line, the \<^verbatim>\<open>number\<close> line and then the bytes of the file, unchanged,
  whatever the length of its lines. For the invocation \<^verbatim>\<open>prog -f path\<close> the two lines
  are \<^verbatim>\<open>verbose = 0\<close> and \<^verbatim>\<open>number  = 0\<close>. The concrete run copies a file that is one
  line of 78 characters and a newline.
\<close>

theorem copies_text_file:
  assumes "fs E path = Inr d" and "\<not> broken d" and "NUL \<notin> set (bytes d)"
  shows "(\<forall>argv. list_all (accepted E) (options E argv) \<and>
            last_arg (CHR ''f'') (options E argv) = Some path \<longrightarrow>
            fst (main E argv None) = EXIT_SUCCESS \<and>
            stdout_of (events (snd (main E argv None))) =
              ''verbose = '' @ show_int (sint (verbose (parsed E (options E argv) initially))) @ [NL] @
              ''number  = '' @ show_int (sint (number (parsed E (options E argv) initially))) @ [NL] @
              bytes d \<and>
            stderr_of (events (snd (main E argv None))) = []) \<and>
         fst (main E [prog, ''-f'', path] None) = EXIT_SUCCESS \<and>
         stdout_of (events (snd (main E [prog, ''-f'', path] None))) =
           ''verbose = 0'' @ [NL] @ ''number  = 0'' @ [NL] @ bytes d"
proof -
  have acc: "list_all (accepted E) (options E [prog, ''-f'', path])"
    and last: "last_arg (CHR ''f'') (options E [prog, ''-f'', path]) = Some path"
    using assms(1) by (simp_all add: options_f_only accepted_def)
  have "parsed E (options E [prog, ''-f'', path]) initially =
      \<lparr>verbose = 0, number = 0, fp = opened E path\<rparr>"
    by (simp add: options_f_only parsed_def initially_def count_v_def)
  with copies_text_file_general [OF acc last assms]
  have "fst (main E [prog, ''-f'', path] None) = EXIT_SUCCESS \<and>
      stdout_of (events (snd (main E [prog, ''-f'', path] None))) =
        ''verbose = 0'' @ [NL] @ ''number  = 0'' @ [NL] @ bytes d"
    by (simp add: show_int_0)
  with copies_text_file_general [OF _ _ assms] show ?thesis
    by blast
qed

theorem copies_text_file_witness:
  "fs sample_env ''line.txt'' =
     Inr \<lparr>bytes = ''xxxxxxxxxxxxxxxxxxxxxxxxxxxxxxxxxxxxxxxxxxxxxxxxxxxxxxxxxxxxxxxxxxxxxxxxxxxxxx'' @ [NL],
          broken = False\<rparr> \<and>
   main sample_env [''prog'', ''-f'', ''line.txt''] None =
     (0, \<lparr>events = [Fopen ''line.txt'', Stdout (''verbose = 0'' @ [NL]), Stdout (''number  = 0'' @ [NL]),
           Stdout ''xxxxxxxxxxxxxxxxxxxxxxxxxxxxxxxxxxxxxxxxxxxxxxxxxxxxxxxxxxxxxxxxxxxxxxxxxxxxxx'',
           Stdout [NL]],
          room = None, errno = ENONE\<rparr>) \<and>
   list_all (accepted sample_env) (options sample_env [''prog'', ''-vf'', ''b.txt'', ''-n7'', ''-f'', ''a.txt'']) \<and>
   last_arg (CHR ''f'') (options sample_env [''prog'', ''-vf'', ''b.txt'', ''-n7'', ''-f'', ''a.txt'']) = Some ''a.txt'' \<and>
   stdout_of (events (snd (main sample_env [''prog'', ''-vf'', ''b.txt'', ''-n7'', ''-f'', ''a.txt''] None))) =
     ''verbose = 1'' @ [NL] @ ''number  = 7'' @ [NL] @ ''one'' @ [NL] @ ''two''"
  using copies_text_file [of sample_env "''line.txt''"
      "\<lparr>bytes = ''xxxxxxxxxxxxxxxxxxxxxxxxxxxxxxxxxxxxxxxxxxxxxxxxxxxxxxxxxxxxxxxxxxxxxxxxxxxxxx'' @ [NL],
          broken = False\<rparr>" "''prog''"]
  by (simp add: run_defs opt_defs
      cong: option.case_cong_weak prod.case_cong_weak sum.case_cong_weak list.case_cong_weak)


text \<open>
  Claim C5. The occurrences of the \<^verbatim>\<open>-v\<close> flag in a command line are the options
  \<^verbatim>\<open>v\<close> that \<^verbatim>\<open>getopt\<close> reports for it (\<open>count_v\<close>): \<^verbatim>\<open>-vv\<close> is two of them, and
  a \<^verbatim>\<open>-v\<close> that is the argument of \<^verbatim>\<open>-f\<close> or \<^verbatim>\<open>-n\<close>, or that follows \<^verbatim>\<open>--\<close>, is none.
  Whenever the \<^verbatim>\<open>verbose\<close> line is printed, that is when all options are accepted, it
  shows this count (below \<open>2 ^ 31\<close>, the range of \<^verbatim>\<open>int\<close>). In particular the command
  line made of \<open>k\<close> arguments \<^verbatim>\<open>-v\<close> prints \<^verbatim>\<open>verbose = k\<close>.
\<close>

theorem verbose_counts_v_options:
  "(list_all (accepted E) (options E argv) \<and> count_v (options E argv) < 2 ^ 31 \<longrightarrow>
      stdout_of (events (snd (main E argv None))) =
        ''verbose = '' @ show_nat (count_v (options E argv)) @ [NL] @
        ''number  = '' @ show_int (sint (number (parsed E (options E argv) initially))) @ [NL] @
        copied (fp (parsed E (options E argv) initially))) \<and>
   (k < 2 ^ 31 \<longrightarrow>
      options E (prog # replicate k ''-v'') = replicate k (CHR ''v'', []) \<and>
      stdout_of (events (snd (main E (prog # replicate k ''-v'') None))) =
        ''verbose = '' @ show_nat k @ [NL] @ ''number  = 0'' @ [NL])"
proof -
  have general: "stdout_of (events (snd (main E argv None))) =
        ''verbose = '' @ show_nat (count_v (options E argv)) @ [NL] @
        ''number  = '' @ show_int (sint (number (parsed E (options E argv) initially))) @ [NL] @
        copied (fp (parsed E (options E argv) initially))"
    if "list_all (accepted E) (options E argv)" "count_v (options E argv) < 2 ^ 31" for argv
    using that by (simp add: main_accepted_stdout parsed_verbose sint_word_of_nat show_int_nat)
  have opts: "options E (prog # replicate k ''-v'') = replicate k (CHR ''v'', [])"
    using options_replicate_v [of E prog k "[]"] by (simp add: options_none)
  have "stdout_of (events (snd (main E (prog # replicate k ''-v'') None))) =
        ''verbose = '' @ show_nat k @ [NL] @ ''number  = 0'' @ [NL]" if "k < 2 ^ 31"
  proof -
    have acc: "list_all (accepted E) (options E (prog # replicate k ''-v''))"
      by (simp add: opts list_all_iff accepted_def)
    have cnt: "count_v (options E (prog # replicate k ''-v'')) = k"
      by (simp add: opts count_v_def)
    have none: "last_arg c (replicate k (CHR ''v'', [])) = None" if "c \<noteq> CHR ''v''" for c
      using that by (induction k) auto
    have "number (parsed E (replicate k (CHR ''v'', [])) initially) = 0"
      and "fp (parsed E (replicate k (CHR ''v'', [])) initially) = None"
      by (simp_all add: parsed_def initially_def none)
    with general [OF acc] cnt that show ?thesis
      by (simp add: opts copied_def show_int_0)
  qed
  with general opts show ?thesis
    by blast
qed

theorem verbose_counts_v_options_witness:
  "list_all (accepted sample_env) (options sample_env [''prog'', ''-v'', ''-f'', ''b.txt'', ''-vv'', ''-n'', ''-v'']) \<and>
   count_v (options sample_env [''prog'', ''-v'', ''-f'', ''b.txt'', ''-vv'', ''-n'', ''-v'']) = 3 \<and>
   stdout_of (events (snd (main sample_env [''prog'', ''-v'', ''-f'', ''b.txt'', ''-vv'', ''-n'', ''-v''] None))) =
     ''verbose = 3'' @ [NL] @ ''number  = 0'' @ [NL] @ ''BBB'' @ [NL] \<and>
   stdout_of (events (snd (main sample_env (''prog'' # replicate 2 ''-v'') None))) =
     ''verbose = 2'' @ [NL] @ ''number  = 0'' @ [NL]"
  using verbose_counts_v_options
    [of sample_env "[''prog'', ''-v'', ''-f'', ''b.txt'', ''-vv'', ''-n'', ''-v'']" 2 "''prog''"]
  by (simp add: run_defs opt_defs numeral_2_eq_2
      cong: option.case_cong_weak prod.case_cong_weak sum.case_cong_weak list.case_cong_weak)

text \<open>
  Claim C10, amended. When all options are accepted and none is \<^verbatim>\<open>-f\<close>, the program
  first writes the two lines to standard output, the \<^verbatim>\<open>verbose\<close> line with the count
  of \<^verbatim>\<open>-v\<close> options (not always 0) and the \<^verbatim>\<open>number\<close> line, then the message
  \<^verbatim>\<open>dump_file: Invalid argument\<close> to the error stream, and exits with
  \<^verbatim>\<open>EXIT_FAILURE\<close>. The claim as written has \<^verbatim>\<open>verbose = 0\<close>; the run \<^verbatim>\<open>prog -v\<close> prints
  \<^verbatim>\<open>verbose = 1\<close>.
\<close>

theorem summary_before_missing_input_error:
  assumes "list_all (accepted E) (options E argv)"
    and "CHR ''f'' \<notin> fst ` set (options E argv)"
    and "count_v (options E argv) < 2 ^ 31"
  shows "main E argv None =
     (EXIT_FAILURE,
      \<lparr>events =
         [Stdout (''verbose = '' @ show_nat (count_v (options E argv)) @ [NL]),
          Stdout (''number  = '' @ show_int (sint (number (parsed E (options E argv) initially))) @ [NL]),
          Stderr (''dump_file: Invalid argument'' @ [NL])],
       room = None, errno = EINVAL\<rparr>)"
proof -
  have "fp (parsed E (options E argv) initially) = None"
    using assms(1,2) by (simp add: parsed_fp_None)
  with assms(2,3) show ?thesis
    by (simp add: main_accepted [OF assms(1)] handle_events_no_f summary_def parsed_verbose
        sint_word_of_nat show_int_nat)
qed

theorem summary_before_missing_input_error_witness:
  "list_all (accepted sample_env) (options sample_env [''prog'', ''-n'', ''12'']) \<and>
   CHR ''f'' \<notin> fst ` set (options sample_env [''prog'', ''-n'', ''12'']) \<and>
   count_v (options sample_env [''prog'', ''-n'', ''12'']) = 0 \<and>
   main sample_env [''prog'', ''-n'', ''12''] None =
     (1, \<lparr>events = [Stdout (''verbose = 0'' @ [NL]), Stdout (''number  = 12'' @ [NL]),
                     Stderr (''dump_file: Invalid argument'' @ [NL])],
          room = None, errno = EINVAL\<rparr>)"
  using summary_before_missing_input_error [of sample_env "[''prog'', ''-n'', ''12'']"]
  by (simp add: run_defs opt_defs
      cong: option.case_cong_weak prod.case_cong_weak sum.case_cong_weak list.case_cong_weak)

theorem summary_verbose_zero_counterexample:
  "list_all (accepted sample_env) (options sample_env [''prog'', ''-v'']) \<and>
   CHR ''f'' \<notin> fst ` set (options sample_env [''prog'', ''-v'']) \<and>
   stdout_of (events (snd (main sample_env [''prog'', ''-v''] None))) =
     ''verbose = 1'' @ [NL] @ ''number  = 0'' @ [NL] \<and>
   stdout_of (events (snd (main sample_env [''prog'', ''-v''] None))) \<noteq>
     ''verbose = 0'' @ [NL] @ ''number  = 0'' @ [NL]"
  by (simp add: run_defs opt_defs
      cong: option.case_cong_weak prod.case_cong_weak sum.case_cong_weak list.case_cong_weak)






text \<open>
  Claim C7, amended. When \<^verbatim>\<open>getopt\<close> reports an option that is none of \<^verbatim>\<open>v\<close>, \<^verbatim>\<open>f\<close>,
  \<^verbatim>\<open>n\<close> (an unrecognized flag, \<^verbatim>\<open>-h\<close>, or a \<^verbatim>\<open>-f\<close> or \<^verbatim>\<open>-n\<close> without its argument)
  and no \<^verbatim>\<open>-f\<close> before it names a path that does not open, the program writes the
  one-line usage message with the base name of \<^verbatim>\<open>argv[0]\<close> to the error stream,
  writes nothing to standard output and exits with \<^verbatim>\<open>EXIT_FAILURE\<close>. So does every
  command line whose first argument starts with an unrecognized flag. The claim as
  written, for every argument list that contains an unrecognized flag, fails when an
  earlier \<^verbatim>\<open>-f\<close> does not open: the program has then already ended in \<^verbatim>\<open>perror\<close>.
\<close>

theorem usage_on_unknown_option:
  assumes "options E (prog # av) = pre @ oa # post"
    and "unknown_opt oa" and "\<not> list_ex (unopenable E) pre"
  shows "fst (main E (prog # av) r) = EXIT_FAILURE \<and>
         stderr_of (events (snd (main E (prog # av) r))) =
           ''usage: '' @ basename prog @ '' [-v]|[-f filename][-n integer]'' @ [NL] \<and>
         stdout_of (events (snd (main E (prog # av) r))) = [] \<and>
         (\<forall>c cs rest. c \<noteq> CHR ''v'' \<and> c \<noteq> CHR ''f'' \<and> c \<noteq> CHR ''n'' \<and> (c = CHR ''-'' \<longrightarrow> cs \<noteq> []) \<longrightarrow>
            main E (prog # (CHR ''-'' # c # cs) # rest) r =
              (EXIT_FAILURE,
               \<lparr>events = [Stderr (''usage: '' @ basename prog @ '' [-v]|[-f filename][-n integer]'' @ [NL])],
                room = r, errno = ENONE\<rparr>))"
proof -
  from assms(2) have "\<not> accepted E oa"
    by (simp add: accepted_iff)
  from first_rejected [OF this, of pre post] obtain p' o' q'
    where split: "pre @ oa # post = p' @ o' # q'" and p': "list_all (accepted E) p'"
      and o': "\<not> accepted E o'" and mem: "o' \<in> set (pre @ [oa])"
    by blast
  have "unknown_opt o'"
  proof (cases "o' = oa")
    case True
    with assms(2) show ?thesis by simp
  next
    case False
    with mem have "o' \<in> set pre" by simp
    with assms(3) have "\<not> unopenable E o'" by (auto simp: list_ex_iff)
    with o' show ?thesis by (simp add: accepted_iff)
  qed
  then have nf: "fst o' \<noteq> CHR ''f''"
    by (simp add: unknown_opt_def)
  from main_rejected [OF _ p' o', of "prog # av" q' r] assms(1) split nf
  have general: "fst (main E (prog # av) r) = EXIT_FAILURE \<and>
         stderr_of (events (snd (main E (prog # av) r))) =
           ''usage: '' @ basename prog @ '' [-v]|[-f filename][-n integer]'' @ [NL] \<and>
         stdout_of (events (snd (main E (prog # av) r))) = []"
    by (simp add: complaint_def usage_message)
  have "main E (prog # (CHR ''-'' # c # cs) # rest) r =
      (EXIT_FAILURE,
       \<lparr>events = [Stderr (''usage: '' @ basename prog @ '' [-v]|[-f filename][-n integer]'' @ [NL])],
        room = r, errno = ENONE\<rparr>)"
    if c: "c \<noteq> CHR ''v''" "c \<noteq> CHR ''f''" "c \<noteq> CHR ''n''" "c = CHR ''-'' \<longrightarrow> cs \<noteq> []"
    for c cs rest
  proof -
    from options_unknown_first [OF c, of E prog rest] obtain post'
      where opts: "options E (prog # (CHR ''-'' # c # cs) # rest) = [] @ (CHR ''?'', []) # post'"
      by auto
    have "\<not> accepted E (CHR ''?'', [])"
      by (simp add: accepted_def)
    from main_rejected [OF opts _ this, of r] show ?thesis
      by (simp add: complaint_def usage_message)
  qed
  with general show ?thesis
    by blast
qed

theorem usage_on_unknown_option_witness:
  "options sample_env [''/usr/bin/prog'', ''-vf'', ''a.txt'', ''-h'', ''-f'', ''nowhere.txt''] =
     [(CHR ''v'', []), (CHR ''f'', ''a.txt'')] @ (CHR ''?'', []) # [(CHR ''f'', ''nowhere.txt'')] \<and>
   unknown_opt (CHR ''?'', []) \<and>
   \<not> list_ex (unopenable sample_env) [(CHR ''v'', []), (CHR ''f'', ''a.txt'')] \<and>
   main sample_env [''/usr/bin/prog'', ''-vf'', ''a.txt'', ''-h'', ''-f'', ''nowhere.txt''] None =
     (1, \<lparr>events = [Fopen ''a.txt'', Stderr (''usage: prog [-v]|[-f filename][-n integer]'' @ [NL])],
          room = None, errno = ENONE\<rparr>) \<and>
   main sample_env [''/usr/bin/prog'', ''-z''] None =
     (1, \<lparr>events = [Stderr (''usage: prog [-v]|[-f filename][-n integer]'' @ [NL])],
          room = None, errno = ENONE\<rparr>)"
  using usage_on_unknown_option
    [of sample_env "''/usr/bin/prog''" "[''-vf'', ''a.txt'', ''-h'', ''-f'', ''nowhere.txt'']"
        "[(CHR ''v'', []), (CHR ''f'', ''a.txt'')]" "(CHR ''?'', [])" "[(CHR ''f'', ''nowhere.txt'')]" None]
  by (simp add: run_defs opt_defs
      cong: option.case_cong_weak prod.case_cong_weak sum.case_cong_weak list.case_cong_weak)

theorem usage_on_unknown_option_counterexample:
  "options sample_env [''prog'', ''-f'', ''nowhere.txt'', ''-z''] =
     [(CHR ''f'', ''nowhere.txt''), (CHR ''?'', [])] \<and>
   main sample_env [''prog'', ''-f'', ''nowhere.txt'', ''-z''] None =
     (1, \<lparr>events = [Stderr (''-f: error opening file: No such file or directory'' @ [NL])],
          room = None, errno = ENOENT\<rparr>) \<and>
   stderr_of (events (snd (main sample_env [''prog'', ''-f'', ''nowhere.txt'', ''-z''] None))) \<noteq>
     ''usage: prog [-v]|[-f filename][-n integer]'' @ [NL]"
  by (simp add: run_defs opt_defs
      cong: option.case_cong_weak prod.case_cong_weak sum.case_cong_weak list.case_cong_weak)


text \<open>
  Claim C8, amended. When \<^verbatim>\<open>getopt\<close> reports a \<^verbatim>\<open>-f\<close> whose path does not open and
  no unknown option before it, the program ends in the \<^verbatim>\<open>perror\<close> of the first \<^verbatim>\<open>-f\<close>
  that does not open: \<^verbatim>\<open>-f: error opening file: \<close> and the description of its errno
  are the last thing it writes, standard output stays empty (no configuration
  lines, no copy) and the status is \<^verbatim>\<open>EXIT_FAILURE\<close>. When no earlier \<^verbatim>\<open>-f\<close> fails
  either, the errno is the one of this path; \<^verbatim>\<open>prog -f path\<close> is such a run. The claim
  as written, for every \<^verbatim>\<open>-f\<close> with such a path, fails when an unknown option comes
  first: the program has then already ended in the usage message.
\<close>

theorem perror_on_open_failure:
  assumes "options E argv = pre @ (CHR ''f'', path) # post"
    and "fs E path = Inl e" and "\<not> list_ex unknown_opt pre"
  shows "fst (main E argv r) = EXIT_FAILURE \<and>
         stdout_of (events (snd (main E argv r))) = [] \<and>
         (\<exists>p' e'. (CHR ''f'', p') \<in> set (pre @ [(CHR ''f'', path)]) \<and> fs E p' = Inl e' \<and>
            stderr_of (events (snd (main E argv r))) =
              ''-f: error opening file: '' @ strerror e' @ [NL] \<and>
            last (events (snd (main E argv r))) =
              Stderr (''-f: error opening file: '' @ strerror e' @ [NL])) \<and>
         (\<not> list_ex (unopenable E) pre \<longrightarrow>
            stderr_of (events (snd (main E argv r))) =
              ''-f: error opening file: '' @ strerror e @ [NL]) \<and>
         main E [prog, ''-f'', path] r =
           (EXIT_FAILURE,
            \<lparr>events = [Stderr (''-f: error opening file: '' @ strerror e @ [NL])],
             room = r, errno = e\<rparr>)"
proof -
  let ?oa = "(CHR ''f'', path)"
  from assms(2) have rej: "\<not> accepted E ?oa"
    by (simp add: accepted_def)
  from first_rejected [OF rej, of pre post] obtain p' o' q'
    where split: "pre @ ?oa # post = p' @ o' # q'" and p': "list_all (accepted E) p'"
      and o': "\<not> accepted E o'" and mem: "o' \<in> set (pre @ [?oa])"
    by blast
  have un: "unopenable E o'"
  proof (cases "o' = ?oa")
    case True
    with assms(2) show ?thesis by (simp add: unopenable_def)
  next
    case False
    with mem have "o' \<in> set pre" by simp
    with assms(3) have "\<not> unknown_opt o'" by (auto simp: list_ex_iff)
    with o' show ?thesis by (simp add: accepted_iff)
  qed
  then obtain p1 e1 where o'_eq: "o' = (CHR ''f'', p1)" and e1: "fs E p1 = Inl e1"
    by (cases o'; cases "fs E (snd o')") (auto simp: unopenable_def)
  let ?msg = "''-f: error opening file: '' @ strerror e1 @ [NL]"
  from main_rejected [OF _ p' o', of argv q' r] assms(1) split o'_eq e1
  have run: "main E argv r =
      (EXIT_FAILURE,
       \<lparr>events = handle_events None p' @ closing E p' @ [Stderr ?msg], room = r, errno = e1\<rparr>)"
    by (simp add: complaint_def)
  have first: "stderr_of (events (snd (main E argv r))) = ''-f: error opening file: '' @ strerror e @ [NL]"
    if "\<not> list_ex (unopenable E) pre"
  proof -
    from that un have "o' \<notin> set pre" by (auto simp: list_ex_iff)
    with mem have "o' = ?oa" by simp
    with o'_eq e1 assms(2) have "e1 = e" by simp
    with run show ?thesis by simp
  qed
  have simple: "main E [prog, ''-f'', path] r =
           (EXIT_FAILURE,
            \<lparr>events = [Stderr (''-f: error opening file: '' @ strerror e @ [NL])],
             room = r, errno = e\<rparr>)"
    using main_rejected [of E "[prog, ''-f'', path]" "[]" ?oa "[]" r] rej assms(2)
    by (simp add: options_f_only complaint_def closing_def)
  from run mem o'_eq e1 have "(CHR ''f'', p1) \<in> set (pre @ [?oa]) \<and> fs E p1 = Inl e1 \<and>
      stderr_of (events (snd (main E argv r))) = ?msg \<and>
      last (events (snd (main E argv r))) = Stderr ?msg"
    by simp
  then have "\<exists>p' e'. (CHR ''f'', p') \<in> set (pre @ [?oa]) \<and> fs E p' = Inl e' \<and>
      stderr_of (events (snd (main E argv r))) = ''-f: error opening file: '' @ strerror e' @ [NL] \<and>
      last (events (snd (main E argv r))) = Stderr (''-f: error opening file: '' @ strerror e' @ [NL])"
    by blast
  with run first simple show ?thesis
    by simp
qed

theorem perror_on_open_failure_witness:
  "options sample_env [''prog'', ''-v'', ''-f'', ''a.txt'', ''-f'', ''nowhere.txt'', ''-z''] =
     [(CHR ''v'', []), (CHR ''f'', ''a.txt'')] @ (CHR ''f'', ''nowhere.txt'') # [(CHR ''?'', [])] \<and>
   fs sample_env ''nowhere.txt'' = Inl ENOENT \<and>
   \<not> list_ex unknown_opt [(CHR ''v'', []), (CHR ''f'', ''a.txt'')] \<and>
   main sample_env [''prog'', ''-v'', ''-f'', ''a.txt'', ''-f'', ''nowhere.txt'', ''-z''] None =
     (1, \<lparr>events = [Fopen ''a.txt'', Fclose ''a.txt'',
                     Stderr (''-f: error opening file: No such file or directory'' @ [NL])],
          room = None, errno = ENOENT\<rparr>) \<and>
   main sample_env [''prog'', ''-f'', ''secret.txt''] None =
     (1, \<lparr>events = [Stderr (''-f: error opening file: Permission denied'' @ [NL])],
          room = None, errno = EACCES\<rparr>) \<and>
   main sample_env [''prog'', ''-f'', ''a.txt/x''] None =
     (1, \<lparr>events = [Stderr (''-f: error opening file: Not a directory'' @ [NL])],
          room = None, errno = ENOTDIR\<rparr>)"
  using perror_on_open_failure
    [of sample_env "[''prog'', ''-v'', ''-f'', ''a.txt'', ''-f'', ''nowhere.txt'', ''-z'']"
        "[(CHR ''v'', []), (CHR ''f'', ''a.txt'')]" "''nowhere.txt''" "[(CHR ''?'', [])]" ENOENT None
        "''prog''"]
  by (simp add: run_defs opt_defs
      cong: option.case_cong_weak prod.case_cong_weak sum.case_cong_weak list.case_cong_weak)

theorem perror_on_open_failure_counterexample:
  "options sample_env [''prog'', ''-z'', ''-f'', ''nowhere.txt''] =
     [(CHR ''?'', []), (CHR ''f'', ''nowhere.txt'')] \<and>
   fs sample_env ''nowhere.txt'' = Inl ENOENT \<and>
   main sample_env [''prog'', ''-z'', ''-f'', ''nowhere.txt''] None =
     (1, \<lparr>events = [Stderr (''usage: prog [-v]|[-f filename][-n integer]'' @ [NL])],
          room = None, errno = ENONE\<rparr>) \<and>
   stderr_of (events (snd (main sample_env [''prog'', ''-z'', ''-f'', ''nowhere.txt''] None))) \<noteq>
     ''-f: error opening file: No such file or directory'' @ [NL]"
  by (simp add: run_defs opt_defs
      cong: option.case_cong_weak prod.case_cong_weak sum.case_cong_weak list.case_cong_weak)


text \<open>
  Claim C6. \<open>open_count\<close> of a prefix of the events is the number of streams the
  program has opened and not closed at that moment. For every command line, file
  system and standard output it is 0 or 1 at every moment of the run: a \<^verbatim>\<open>-f\<close> that
  follows an open stream closes it before it opens its own. With two \<^verbatim>\<open>-f\<close> that
  both open, the first file is opened and closed unread, the second is opened and
  copied (for text that reads to end-of-file, its bytes follow the two lines on
  standard output), nothing goes to the error stream and the status is
  \<^verbatim>\<open>EXIT_SUCCESS\<close>. The stream of the last \<^verbatim>\<open>-f\<close> is still open when the process ends.
\<close>

theorem one_stream_open_at_a_time:
  "(\<forall>n. open_count (take n (events (snd (main E argv r)))) \<in> {0, 1}) \<and>
   (fs E p1 = Inr d1 \<and> fs E p2 = Inr d2 \<and> NUL \<notin> set (bytes d2) \<and> \<not> broken d2 \<longrightarrow>
      main E [prog, ''-f'', p1, ''-f'', p2] None =
        (EXIT_SUCCESS,
         \<lparr>events =
            [Fopen p1, Fclose p1, Fopen p2,
             Stdout (''verbose = 0'' @ [NL]), Stdout (''number  = 0'' @ [NL])] @
            map Stdout (reads \<lparr>name = p2, pending = bytes d2, rerr = False\<rparr>),
          room = None, errno = ENONE\<rparr>) \<and>
      stdout_of (events (snd (main E [prog, ''-f'', p1, ''-f'', p2] None))) =
        ''verbose = 0'' @ [NL] @ ''number  = 0'' @ [NL] @ bytes d2 \<and>
      stderr_of (events (snd (main E [prog, ''-f'', p1, ''-f'', p2] None))) = [])"
proof -
  have inv: "open_count (take n (events (snd (main E argv r)))) \<in> {0, 1}" for n
    using within_take [OF main_handles, of n E argv r] by auto
  have twice: "main E [prog, ''-f'', p1, ''-f'', p2] None =
        (EXIT_SUCCESS,
         \<lparr>events =
            [Fopen p1, Fclose p1, Fopen p2,
             Stdout (''verbose = 0'' @ [NL]), Stdout (''number  = 0'' @ [NL])] @
            map Stdout (reads \<lparr>name = p2, pending = bytes d2, rerr = False\<rparr>),
          room = None, errno = ENONE\<rparr>) \<and>
      stdout_of (events (snd (main E [prog, ''-f'', p1, ''-f'', p2] None))) =
        ''verbose = 0'' @ [NL] @ ''number  = 0'' @ [NL] @ bytes d2 \<and>
      stderr_of (events (snd (main E [prog, ''-f'', p1, ''-f'', p2] None))) = []"
    if f: "fs E p1 = Inr d1" "fs E p2 = Inr d2" "NUL \<notin> set (bytes d2)" "\<not> broken d2"
  proof -
    let ?argv = "[prog, ''-f'', p1, ''-f'', p2]"
    let ?f = "\<lparr>name = p2, pending = bytes d2, rerr = False\<rparr>"
    have acc: "list_all (accepted E) (options E ?argv)"
      using f(1,2) by (simp add: options_two_f accepted_def)
    have L: "parsed E [(CHR ''f'', p1), (CHR ''f'', p2)] initially =
        \<lparr>verbose = 0, number = 0, fp = Some ?f\<rparr>"
      using f(2,4) by (simp add: parsed_def initially_def count_v_def opened_def)
    have plain: "map (\<lambda>b. Stdout (takeWhile (\<lambda>c. c \<noteq> NUL) b)) (reads ?f) = map Stdout (reads ?f)"
      using reads_text [of ?f] f(3) by (auto simp: takeWhile_eq_all_conv)
    have run: "main E ?argv None =
        (EXIT_SUCCESS,
         \<lparr>events =
            [Fopen p1, Fclose p1, Fopen p2,
             Stdout (''verbose = 0'' @ [NL]), Stdout (''number  = 0'' @ [NL])] @
            map Stdout (reads ?f),
          room = None, errno = ENONE\<rparr>)"
      using main_accepted [OF acc] unfolding options_two_f L
      by (simp add: plain summary_def show_int_0)
    have last: "last_arg (CHR ''f'') (options E ?argv) = Some p2"
      by (simp add: options_two_f)
    from copies_text_file_general [OF acc last f(2,4,3)] run show ?thesis
      unfolding options_two_f L by (simp add: show_int_0)
  qed
  from inv twice show ?thesis
    by blast
qed

theorem one_stream_open_at_a_time_witness:
  "fs sample_env ''a.txt'' = Inr \<lparr>bytes = ''one'' @ [NL] @ ''two'', broken = False\<rparr> \<and>
   fs sample_env ''b.txt'' = Inr \<lparr>bytes = ''BBB'' @ [NL], broken = False\<rparr> \<and>
   NUL \<notin> set (''BBB'' @ [NL]) \<and>
   main sample_env [''prog'', ''-f'', ''a.txt'', ''-f'', ''b.txt''] None =
     (0, \<lparr>events = [Fopen ''a.txt'', Fclose ''a.txt'', Fopen ''b.txt'',
                     Stdout (''verbose = 0'' @ [NL]), Stdout (''number  = 0'' @ [NL]),
                     Stdout (''BBB'' @ [NL])],
          room = None, errno = ENONE\<rparr>) \<and>
   open_count (take 1 (events (snd (main sample_env [''prog'', ''-f'', ''a.txt'', ''-f'', ''b.txt''] None)))) = 1 \<and>
   open_count (take 2 (events (snd (main sample_env [''prog'', ''-f'', ''a.txt'', ''-f'', ''b.txt''] None)))) = 0 \<and>
   open_count (take 3 (events (snd (main sample_env [''prog'', ''-f'', ''a.txt'', ''-f'', ''b.txt''] None)))) = 1"
  using one_stream_open_at_a_time
    [of sample_env "[''prog'', ''-f'', ''a.txt'', ''-f'', ''b.txt'']" None "''a.txt''"
        "\<lparr>bytes = ''one'' @ [NL] @ ''two'', broken = False\<rparr>" "''b.txt''"
        "\<lparr>bytes = ''BBB'' @ [NL], broken = False\<rparr>" "''prog''"]
  by (simp add: run_defs opt_defs
      cong: option.case_cong_weak prod.case_cong_weak sum.case_cong_weak list.case_cong_weak)


text \<open>
  Claim C9. Two command lines differ only in their \<^verbatim>\<open>-v\<close> flags when \<^verbatim>\<open>getopt\<close>
  reports the same options for both once the \<^verbatim>\<open>v\<close> are left out (\<open>without_v\<close>);
  putting any number of \<^verbatim>\<open>-v\<close> arguments in front of a command line is one way to
  get such a pair. The two runs then end with the same exit status, whatever
  standard output accepts. And their standard outputs are either both empty
  (parsing failed in both) or both consist of the \<^verbatim>\<open>verbose\<close> line, each with its
  own count, followed by the same bytes: the \<^verbatim>\<open>number\<close> line and the copy.
\<close>

theorem verbosity_changes_verbose_line_only:
  assumes "without_v (options E argv1) = without_v (options E argv2)"
  shows "fst (main E argv1 r) = fst (main E argv2 r) \<and>
         (stdout_of (events (snd (main E argv1 None))) = [] \<and>
          stdout_of (events (snd (main E argv2 None))) = [] \<or>
          (\<exists>rest.
             stdout_of (events (snd (main E argv1 None))) =
               ''verbose = '' @ show_int (sint (word_of_nat (count_v (options E argv1)) :: c_int)) @ [NL] @ rest \<and>
             stdout_of (events (snd (main E argv2 None))) =
               ''verbose = '' @ show_int (sint (word_of_nat (count_v (options E argv2)) :: c_int)) @ [NL] @ rest)) \<and>
         without_v (options E (prog # replicate j ''-v'' @ av)) =
           without_v (options E (prog # replicate k ''-v'' @ av))"
proof -
  let ?T1 = "options E argv1" and ?T2 = "options E argv2"
  have acc: "list_all (accepted E) ?T1 \<longleftrightarrow> list_all (accepted E) ?T2"
    using assms accepted_without_v [of E ?T1] accepted_without_v [of E ?T2] by simp
  have la: "last_arg c ?T1 = last_arg c ?T2" if "c \<noteq> CHR ''v''" for c
    using assms last_arg_without_v [OF that, of ?T1] last_arg_without_v [OF that, of ?T2] by simp
  have insert: "without_v (options E (prog # replicate j ''-v'' @ av)) =
           without_v (options E (prog # replicate k ''-v'' @ av))"
    by (simp add: without_v_replicate)
  show ?thesis
  proof (cases "list_all (accepted E) ?T1")
    case False
    with acc have "\<not> list_all (accepted E) ?T2" by simp
    with False insert show ?thesis
      by (simp add: main_status_rejected main_rejected_stdout)
  next
    case True
    with acc have True2: "list_all (accepted E) ?T2" by simp
    have f: "CHR ''f'' \<in> fst ` set ?T1 \<longleftrightarrow> CHR ''f'' \<in> fst ` set ?T2"
      using la [of "CHR ''f''"] last_arg_None [of "CHR ''f''" ?T1] last_arg_None [of "CHR ''f''" ?T2]
      by simp
    have status: "fst (main E argv1 r) = fst (main E argv2 r)"
      using f by (simp add: main_status_accepted True True2)
    have same: "number (parsed E ?T1 initially) = number (parsed E ?T2 initially)"
      "fp (parsed E ?T1 initially) = fp (parsed E ?T2 initially)"
      using la [of "CHR ''n''"] la [of "CHR ''f''"] by (simp_all add: parsed_def)
    let ?rest = "''number  = '' @ show_int (sint (number (parsed E ?T1 initially))) @ [NL] @
        copied (fp (parsed E ?T1 initially))"
    have "stdout_of (events (snd (main E argv1 None))) =
        ''verbose = '' @ show_int (sint (word_of_nat (count_v ?T1) :: c_int)) @ [NL] @ ?rest"
      by (simp add: main_accepted_stdout [OF True] parsed_verbose)
    moreover have "stdout_of (events (snd (main E argv2 None))) =
        ''verbose = '' @ show_int (sint (word_of_nat (count_v ?T2) :: c_int)) @ [NL] @ ?rest"
      by (simp add: main_accepted_stdout [OF True2] parsed_verbose same)
    ultimately show ?thesis
      using status insert by blast
  qed
qed

theorem verbosity_changes_verbose_line_only_witness:
  "without_v (options sample_env [''prog'', ''-v'', ''-n'', ''7'', ''-f'', ''a.txt'']) =
     [(CHR ''n'', ''7''), (CHR ''f'', ''a.txt'')] \<and>
   without_v (options sample_env [''prog'', ''-n'', ''7'', ''-vv'', ''-f'', ''a.txt'', ''-v'']) =
     [(CHR ''n'', ''7''), (CHR ''f'', ''a.txt'')] \<and>
   main sample_env [''prog'', ''-v'', ''-n'', ''7'', ''-f'', ''a.txt''] None =
     (0, \<lparr>events = [Fopen ''a.txt'', Stdout (''verbose = 1'' @ [NL]), Stdout (''number  = 7'' @ [NL]),
                     Stdout (''one'' @ [NL]), Stdout ''two''],
          room = None, errno = ENONE\<rparr>) \<and>
   main sample_env [''prog'', ''-n'', ''7'', ''-vv'', ''-f'', ''a.txt'', ''-v''] None =
     (0, \<lparr>events = [Fopen ''a.txt'', Stdout (''verbose = 3'' @ [NL]), Stdout (''number  = 7'' @ [NL]),
                     Stdout (''one'' @ [NL]), Stdout ''two''],
          room = None, errno = ENONE\<rparr>)"
  using verbosity_changes_verbose_line_only
    [of sample_env "[''prog'', ''-v'', ''-n'', ''7'', ''-f'', ''a.txt'']"
        "[''prog'', ''-n'', ''7'', ''-vv'', ''-f'', ''a.txt'', ''-v'']" None "''prog''" 0 "[]" 0]
  by (simp add: run_defs opt_defs without_v_def
      cong: option.case_cong_weak prod.case_cong_weak sum.case_cong_weak list.case_cong_weak)


end
